theory Spec2Isabelle
  imports Main "HOL-Library.Product_Lexorder" "HOL-Library.Countable"
begin

section \<open>Z202: repeated statement blocks (drace/darkian/z200/z202.py)\<close>

text \<open>
  The rule canonicalizes every window of consecutive statements, groups the windows by the
  hash of their canonical dump, filters trivial groups and greedily selects groups whose
  occurrences do not share source lines.

  Python values are modelled as follows: unbounded integers are \<open>int\<close>, \<open>len\<close> and
  counters are \<open>nat\<close>, strings are \<open>string\<close>, dictionaries that are only looked up are maps,
  dictionaries that are iterated are association lists in insertion order.
  Functions of the Python library that the module calls (\<open>hashlib.sha256\<close>, \<open>ast.dump\<close>,
  the iteration order of a \<open>set\<close>) are parameters of the definitions that use them.
\<close>

subsection \<open>Strings\<close>

definition digit_char :: "nat \<Rightarrow> char" where
  "digit_char d = ''0123456789'' ! d"

text \<open>\<open>str(n)\<close> for a non-negative integer: its decimal digits.\<close>

fun str_nat :: "nat \<Rightarrow> string" where
  "str_nat n = (if n < 10 then [digit_char n] else str_nat (n div 10) @ [digit_char (n mod 10)])"

declare str_nat.simps [simp del]

text \<open>\<open>str(i)\<close> and \<open>repr(i)\<close> for an integer.\<close>

definition str_int :: "int \<Rightarrow> string" where
  "str_int i = (if i < 0 then CHR ''-'' # str_nat (nat (- i)) else str_nat (nat i))"

text \<open>\<open>s.startswith(sub)\<close>, \<open>sub in s\<close> and \<open>s.count(sub)\<close> (non-overlapping occurrences,
  scanned from the left).\<close>

definition startswith :: "string \<Rightarrow> string \<Rightarrow> bool" where
  "startswith s sub = (take (length sub) s = sub)"

fun str_in :: "string \<Rightarrow> string \<Rightarrow> bool" where
  "str_in sub [] = (sub = [])"
| "str_in sub (c # cs) = (startswith (c # cs) sub \<or> str_in sub cs)"

function str_count :: "string \<Rightarrow> string \<Rightarrow> nat" where
  "str_count sub s =
     (if sub = [] then length s + 1
      else if s = [] then 0
      else if startswith s sub then 1 + str_count sub (drop (length sub) s)
      else str_count sub (tl s))"
  by pat_completeness auto
termination
  by (relation "measure (\<lambda>(sub, s). length s)") auto

declare str_count.simps [simp del]

subsection \<open>Triviality filter\<close>

type_synonym line_range = "int \<times> int"

text \<open>
  The loop of \<open>_is_trivial_by_line_ranges\<close> over the sorted list. At the last element
  \<open>matches[i + 1]\<close> raises \<open>IndexError\<close>, which the loop catches and ignores.
  \<open>x in range(start, end + 1)\<close> is \<open>start \<le> x \<and> x < end + 1\<close>.
\<close>

fun trivial_scan :: "line_range list \<Rightarrow> bool" where
  "trivial_scan [] = False"
| "trivial_scan ((start, end) # rest) =
     (if end - start = 1 then True
      else case rest of
             [] \<Rightarrow> trivial_scan rest
           | nxt # _ \<Rightarrow>
               if start \<le> fst nxt \<and> fst nxt < end + 1 then True else trivial_scan rest)"

text \<open>\<open>sorted(matches)\<close> orders the pairs lexicographically, which is the order of
  \<open>int \<times> int\<close> here.\<close>

definition is_trivial_by_line_ranges :: "line_range list \<Rightarrow> bool" where
  "is_trivial_by_line_ranges matches =
     (if length matches < 2 then False else trivial_scan (sort matches))"

text \<open>Modelled from the spec: \<open>utils.any_in\<close> is not part of the sources at hand; the rule
  asks for "at least one keyword-argument or literal-constant node", so \<open>any_in subs eq\<close>
  holds when one of \<open>subs\<close> occurs in \<open>eq\<close>.\<close>

definition any_in :: "string list \<Rightarrow> string \<Rightarrow> bool" where
  "any_in subs eq = (\<exists>sub \<in> set subs. str_in sub eq)"

definition is_argparse_like :: "string \<Rightarrow> bool" where
  "is_argparse_like dumped =
     (str_count ''Call(Attribute(Name('' dumped \<ge> 2 \<and> any_in [''keyword('', ''Constant(''] dumped)"

definition is_trivial_dump :: "string \<Rightarrow> line_range list \<Rightarrow> bool" where
  "is_trivial_dump dumped ranges =
     (if length dumped < 50 then True
      else if str_in ''Return('' dumped then True
      else if is_argparse_like dumped then True
      else if is_trivial_by_line_ranges ranges then True
      else False)"

subsection \<open>Candidate groups\<close>

text \<open>An occurrence is \<open>(start_lineno, end_lineno, dumped)\<close>; \<open>seqs\<close> maps a hash to its
  occurrences, in insertion order.\<close>

type_synonym occurrence = "int \<times> int \<times> string"
type_synonym seqs = "(string \<times> occurrence list) list"

text \<open>\<open>d[k] = v\<close> on an insertion-ordered dictionary: an existing key keeps its place.\<close>

fun dict_set :: "('k \<times> 'v) list \<Rightarrow> 'k \<Rightarrow> 'v \<Rightarrow> ('k \<times> 'v) list" where
  "dict_set [] k v = [(k, v)]"
| "dict_set ((k', v') # d) k v = (if k' = k then (k, v) # d else (k', v') # dict_set d k v)"

text \<open>\<open>d.setdefault(k, []).append(x)\<close>.\<close>

fun dict_append :: "('k \<times> 'v list) list \<Rightarrow> 'k \<Rightarrow> 'v \<Rightarrow> ('k \<times> 'v list) list" where
  "dict_append [] k x = [(k, [x])]"
| "dict_append ((k', xs) # d) k x =
     (if k' = k then (k', xs @ [x]) # d else (k', xs) # dict_append d k x)"

record candidate =
  hash_c :: string
  occurrences_c :: "occurrence list"
  count_c :: nat
  length_c :: int
  sample_dump_c :: string

text \<open>The loop \<open>for start, end, dumped in occ: seen[(start, end)] = dumped\<close> and the list
  \<open>occ_unique\<close> built from it.\<close>

definition occ_unique :: "occurrence list \<Rightarrow> occurrence list" where
  "occ_unique occ =
     map (\<lambda>((s, e), d). (s, e, d)) (foldl (\<lambda>seen (s, e, d). dict_set seen (s, e) d) [] occ)"

definition line_ranges :: "occurrence list \<Rightarrow> line_range list" where
  "line_ranges occ = map (\<lambda>(s, e, d). (s, e)) occ"

text \<open>One iteration of \<open>for h, occ in seqs.items()\<close>: \<open>None\<close> is \<open>continue\<close>.
  \<open>min\<close> and \<open>max\<close> run over at least three elements here.\<close>

definition make_candidate :: "string \<times> occurrence list \<Rightarrow> candidate option" where
  "make_candidate item =
     (let (h, occ) = item; occ_u = occ_unique occ in
      if length occ_u < 3 then None
      else case occ_u of
        [] \<Rightarrow> None
      | (s0, e0, dumped0) # _ \<Rightarrow>
          if is_trivial_dump dumped0 (line_ranges occ_u) then None
          else
            let first_start = Min (set (map (\<lambda>(s, e, d). s) occ_u));
                first_end = Max (set (map (\<lambda>(s, e, d). e) occ_u));
                len = first_end - first_start + 1
            in Some \<lparr>hash_c = h, occurrences_c = occ_u, count_c = length occ_u,
                     length_c = len, sample_dump_c = dumped0\<rparr>)"

definition build_candidates :: "seqs \<Rightarrow> candidate list" where
  "build_candidates sq = List.map_filter make_candidate sq"

text \<open>
  \<open>candidates.sort(key=lambda c: (c["count"], c["length"]), reverse=True)\<close>: a stable sort
  in descending order of the key, that is a stable ascending sort of the negated key.
\<close>

definition sort_candidates :: "candidate list \<Rightarrow> candidate list" where
  "sort_candidates cs = sort_key (\<lambda>c. (- int (count_c c), - length_c c)) cs"

subsection \<open>Greedy selection\<close>

record selected =
  hash_s :: string
  primary_s :: line_range
  matches_s :: "line_range list"
  count_s :: nat
  length_s :: int

text \<open>\<open>range(start, end + 1)\<close> is the list \<open>[start..end]\<close>.\<close>

definition range_overlaps_with_occupied :: "int set \<Rightarrow> int \<Rightarrow> int \<Rightarrow> bool" where
  "range_overlaps_with_occupied occupied_lines start end =
     (\<exists>ln \<in> set [start..end]. ln \<in> occupied_lines)"

definition occupy :: "int set \<Rightarrow> line_range list \<Rightarrow> int set" where
  "occupy occupied_lines occs = foldl (\<lambda>occd (s, e). occd \<union> set [s..e]) occupied_lines occs"

text \<open>
  \<open>set_iter\<close> stands for the order in which Python iterates over the set
  \<open>{(s, e) for s, e, d in cand["occurrences"]}\<close>; \<open>sorted(..., key=lambda t: t[0])\<close> then
  sorts stably by the start line only.
\<close>

fun greedy_select ::
  "(line_range list \<Rightarrow> line_range list) \<Rightarrow> int set \<Rightarrow> candidate list \<Rightarrow> selected list" where
  "greedy_select set_iter occupied_lines [] = []"
| "greedy_select set_iter occupied_lines (cand # cands) =
     (let occs = sort_key fst (set_iter (line_ranges (occurrences_c cand)));
          non_overlapping_occs =
            filter (\<lambda>(s, e). \<not> range_overlaps_with_occupied occupied_lines s e) occs
      in if length non_overlapping_occs < 2 then greedy_select set_iter occupied_lines cands
         else case non_overlapping_occs of
           [] \<Rightarrow> greedy_select set_iter occupied_lines cands
         | primary # _ \<Rightarrow>
             \<lparr>hash_s = hash_c cand, primary_s = primary, matches_s = non_overlapping_occs,
              count_s = length non_overlapping_occs, length_s = length_c cand\<rparr>
             # greedy_select set_iter (occupy occupied_lines non_overlapping_occs) cands)"

text \<open>The value of the variable \<open>selected\<close> of \<open>check\<close>, as a function of \<open>seqs\<close>.\<close>

definition select_groups :: "(line_range list \<Rightarrow> line_range list) \<Rightarrow> seqs \<Rightarrow> selected list" where
  "select_groups set_iter sq = greedy_select set_iter {} (sort_candidates (build_candidates sq))"

subsection \<open>Messages\<close>

record finding =
  file_f :: string
  line_f :: int
  col_f :: int
  code_f :: string
  msg_f :: string

text \<open>\<open>repr\<close> of a list of pairs of integers, as the f-string prints \<open>display_matches\<close>.\<close>

definition repr_pair :: "line_range \<Rightarrow> string" where
  "repr_pair r = ''('' @ str_int (fst r) @ '', '' @ str_int (snd r) @ '')''"

fun join :: "string \<Rightarrow> string list \<Rightarrow> string" where
  "join sep [] = []"
| "join sep [x] = x"
| "join sep (x # y # ys) = x @ sep @ join sep (y # ys)"

definition repr_pairs :: "line_range list \<Rightarrow> string" where
  "repr_pairs rs = ''['' @ join '', '' (map repr_pair rs) @ '']''"

definition make_finding :: "string \<Rightarrow> selected \<Rightarrow> finding" where
  "make_finding file s =
     (let limit = 8;
          matches = matches_s s;
          display_matches = (if length matches \<le> limit then matches else take limit matches);
          message = ''repeated block detected ('' @ str_nat (count_s s) @ '' ''
            @ ''occurrences). Consider extracting a ''
            @ ''function for the block at lines ''
            @ repr_pairs display_matches;
          message' = (if length matches > limit
                      then message @ '' (and '' @ str_nat (length matches - limit)
                           @ '' more occurrences)''
                      else message)
      in \<lparr>file_f = file, line_f = fst (primary_s s), col_f = 1, code_f = ''Z202'',
          msg_f = message'\<rparr>)"

text \<open>The part of \<open>check\<close> after \<open>seqs = collect_sequences(tree)\<close>.\<close>

definition check_seqs ::
  "(line_range list \<Rightarrow> line_range list) \<Rightarrow> seqs \<Rightarrow> string \<Rightarrow> finding list" where
  "check_seqs set_iter sq file = map (make_finding file) (select_groups set_iter sq)"

subsection \<open>Constants and their \<open>repr\<close>\<close>

text \<open>The values of literal constants: \<open>None\<close>, booleans, integers, strings and
  \<open>Ellipsis\<close>. Floating-point, complex and bytes literals are not modelled.\<close>

datatype const_value = CNone | CBool bool | CInt int | CStr string | CEllipsis

definition hex_char :: "nat \<Rightarrow> char" where
  "hex_char d = ''0123456789abcdef'' ! d"

text \<open>A character stands for a code point below 256. \<open>repr\<close> keeps a printable character
  and writes the others as escapes.\<close>

definition printable :: "char \<Rightarrow> bool" where
  "printable ch =
     (let n = (of_char ch :: nat)
      in (32 \<le> n \<and> n < 127) \<or> (161 \<le> n \<and> n \<noteq> 173))"

definition escape_char :: "char \<Rightarrow> char \<Rightarrow> string" where
  "escape_char quote ch =
     (if ch = quote \<or> ch = CHR 0x5C then [CHR 0x5C, ch]
      else if ch = CHR 0x09 then [CHR 0x5C, CHR ''t'']
      else if ch = CHR 0x0A then [CHR 0x5C, CHR ''n'']
      else if ch = CHR 0x0D then [CHR 0x5C, CHR ''r'']
      else if printable ch then [ch]
      else [CHR 0x5C, CHR ''x'', hex_char (of_char ch div 16), hex_char (of_char ch mod 16)])"

text \<open>\<open>repr(s)\<close> of a string: double quotes are used when the string has a single quote and
  no double quote, single quotes otherwise.\<close>

definition repr_str :: "string \<Rightarrow> string" where
  "repr_str s =
     (let quote = (if CHR 0x27 \<in> set s \<and> CHR 0x22 \<notin> set s then CHR 0x22 else CHR 0x27)
      in quote # concat (map (escape_char quote) s) @ [quote])"

fun py_repr :: "const_value \<Rightarrow> string" where
  "py_repr CNone = ''None''"
| "py_repr (CBool b) = (if b then ''True'' else ''False'')"
| "py_repr (CInt i) = str_int i"
| "py_repr (CStr s) = repr_str s"
| "py_repr CEllipsis = ''Ellipsis''"

text \<open>
  \<open>repr\<close> of an integer of more than 4300 decimal digits raises \<open>ValueError\<close> (the default
  of \<open>sys.int_max_str_digits\<close>), and the pass that meets such a constant stops with that
  error. \<open>py_repr\<close> is \<open>repr\<close> where it returns.
\<close>

definition repr_defined :: "const_value \<Rightarrow> bool" where
  "repr_defined v = (case v of CInt i \<Rightarrow> length (str_nat (nat \<bar>i\<bar>)) \<le> 4300 | other \<Rightarrow> True)"

text \<open>\<open>v == w\<close> on these values: a boolean is the integer 0 or 1; values of different
  kinds are different otherwise.\<close>

fun py_eq :: "const_value \<Rightarrow> const_value \<Rightarrow> bool" where
  "py_eq (CBool b) (CInt i) = (i = (if b then 1 else 0))"
| "py_eq (CInt i) (CBool b) = (i = (if b then 1 else 0))"
| "py_eq v w = (v = w)"

subsection \<open>Syntax trees\<close>

text \<open>
  The nodes of Python's \<open>ast\<close> module, in two layers, as in its grammar: expression-level
  nodes never contain statements. The node kinds that \<open>Canonicalizer\<close> or \<open>BodyWalker\<close>
  single out are constructors, with the fields of \<open>_fields\<close> in their order; every other
  kind is a generic node with its class name and its named fields.

  Statement-level nodes carry \<open>lineno\<close> and \<open>end_lineno\<close>, each absent or present;
  \<open>Module\<close> and generic nodes of a class without location attributes (\<open>match_case\<close>)
  carry none. The locations of expression-level nodes are left out: nothing reads them
  (\<open>ast.dump\<close> runs with \<open>include_attributes=False\<close>).
\<close>

datatype enode =
    Name string enode
  | Arg string "enode option" "string option"
  | Attribute enode string enode
  | Constant const_value "string option"
  | ENode string "(string \<times> efield) list"
and efield =
    EExpr enode
  | EExprs "enode list"
  | EOpts "enode option list"
  | EVal const_value
  | EVals "const_value list"
  | ENone

type_synonym position = "int option \<times> int option"

datatype snode =
    FunctionDef position string enode "snode list" "enode list" "enode option" "string option"
  | ClassDef position string "enode list" "enode list" "snode list" "enode list"
  | If position enode "snode list" "snode list"
  | For position enode enode "snode list" "snode list" "string option"
  | While position enode "snode list" "snode list"
  | With position "enode list" "snode list" "string option"
  | Try position "snode list" "snode list" "snode list" "snode list"
  | ExceptHandler position "enode option" "string option" "snode list"
  | Module "snode list" "enode list"
  | SNode string "position option" "(string \<times> sfield) list"
and sfield =
    SExpr enode
  | SExprs "enode list"
  | SOpts "enode option list"
  | SStmts "snode list"
  | SVal const_value
  | SVals "const_value list"
  | SNone

subsection \<open>Canonicalizer\<close>

record canon =
  name_map :: "string \<rightharpoonup> string"
  const_map :: "string \<rightharpoonup> string"
  n_name :: nat
  n_const :: nat

definition init_canon :: canon where
  "init_canon = \<lparr>name_map = Map.empty, const_map = Map.empty, n_name = 0, n_const = 0\<rparr>"

definition map_name :: "canon \<Rightarrow> string \<Rightarrow> string \<times> canon" where
  "map_name c name =
     (case name_map c name of
        Some p \<Rightarrow> (p, c)
      | None \<Rightarrow>
          (''_N'' @ str_nat (n_name c),
           c\<lparr>name_map := (name_map c)(name \<mapsto> ''_N'' @ str_nat (n_name c)),
             n_name := n_name c + 1\<rparr>))"

definition map_const :: "canon \<Rightarrow> const_value \<Rightarrow> string \<times> canon" where
  "map_const c v =
     (let key = py_repr v in
      case const_map c key of
        Some p \<Rightarrow> (p, c)
      | None \<Rightarrow>
          (''_C'' @ str_nat (n_const c),
           c\<lparr>const_map := (const_map c)(key \<mapsto> ''_C'' @ str_nat (n_const c)),
             n_const := n_const c + 1\<rparr>))"

text \<open>The part of \<open>visit_Attribute\<close> that maps the attribute name: the key is
  \<open>"attr::" + attr\<close> in \<open>name_map\<close>, and the number comes from \<open>_n_name\<close>.\<close>

definition map_attr :: "canon \<Rightarrow> string \<Rightarrow> string \<times> canon" where
  "map_attr c attr =
     (let attr_key = ''attr::'' @ attr in
      case name_map c attr_key of
        Some p \<Rightarrow> (p, c)
      | None \<Rightarrow>
          (''_A'' @ str_nat (n_name c),
           c\<lparr>name_map := (name_map c)(attr_key \<mapsto> ''_A'' @ str_nat (n_name c)),
             n_name := n_name c + 1\<rparr>))"

text \<open>
  \<open>Canonicalizer.visit\<close> on expression-level nodes. \<open>visit_Name\<close>, \<open>visit_arg\<close> and
  \<open>visit_Constant\<close> do not visit the children of the node; \<open>visit_Attribute\<close> and the
  generic visit go through the fields in order, through the elements of a list field, and
  leave strings, numbers and \<open>None\<close> as they are.
\<close>

fun visit_e :: "canon \<Rightarrow> enode \<Rightarrow> enode \<times> canon"
  and visit_es :: "canon \<Rightarrow> enode list \<Rightarrow> enode list \<times> canon"
  and visit_eo :: "canon \<Rightarrow> enode option \<Rightarrow> enode option \<times> canon"
  and visit_eos :: "canon \<Rightarrow> enode option list \<Rightarrow> enode option list \<times> canon"
  and visit_efields :: "canon \<Rightarrow> (string \<times> efield) list \<Rightarrow> (string \<times> efield) list \<times> canon"
  and visit_efield :: "canon \<Rightarrow> efield \<Rightarrow> efield \<times> canon"
where
  "visit_e c (Name n ctx) = (let (new_id, c1) = map_name c n in (Name new_id ctx, c1))"
| "visit_e c (Arg a ann tc) = (let (new_arg, c1) = map_name c a in (Arg new_arg None None, c1))"
| "visit_e c (Attribute v a ctx) =
     (let (v', c1) = visit_e c v;
          (ctx', c2) = visit_e c1 ctx;
          (new_attr, c3) = map_attr c2 a
      in (Attribute v' new_attr ctx', c3))"
| "visit_e c (Constant v k) =
     (let (placeholder, c1) = map_const c v in (Constant (CStr placeholder) None, c1))"
| "visit_e c (ENode cls fs) = (let (fs', c1) = visit_efields c fs in (ENode cls fs', c1))"
| "visit_es c [] = ([], c)"
| "visit_es c (e # es) =
     (let (e', c1) = visit_e c e; (es', c2) = visit_es c1 es in (e' # es', c2))"
| "visit_eo c None = (None, c)"
| "visit_eo c (Some e) = (let (e', c1) = visit_e c e in (Some e', c1))"
| "visit_eos c [] = ([], c)"
| "visit_eos c (e # es) =
     (let (e', c1) = visit_eo c e; (es', c2) = visit_eos c1 es in (e' # es', c2))"
| "visit_efields c [] = ([], c)"
| "visit_efields c ((n, f) # fs) =
     (let (f', c1) = visit_efield c f; (fs', c2) = visit_efields c1 fs in ((n, f') # fs', c2))"
| "visit_efield c (EExpr e) = (let (e', c1) = visit_e c e in (EExpr e', c1))"
| "visit_efield c (EExprs es) = (let (es', c1) = visit_es c es in (EExprs es', c1))"
| "visit_efield c (EOpts es) = (let (es', c1) = visit_eos c es in (EOpts es', c1))"
| "visit_efield c (EVal v) = (EVal v, c)"
| "visit_efield c (EVals vs) = (EVals vs, c)"
| "visit_efield c ENone = (ENone, c)"

text \<open>
  \<open>Canonicalizer.visit\<close> on statement-level nodes: \<open>visit_FunctionDef\<close> and
  \<open>visit_ClassDef\<close> first visit all fields, then overwrite the name and empty the decorators,
  the return annotation and the bases; every other kind is visited generically.
\<close>

fun visit_s :: "canon \<Rightarrow> snode \<Rightarrow> snode \<times> canon"
  and visit_ss :: "canon \<Rightarrow> snode list \<Rightarrow> snode list \<times> canon"
  and visit_sfields :: "canon \<Rightarrow> (string \<times> sfield) list \<Rightarrow> (string \<times> sfield) list \<times> canon"
  and visit_sfield :: "canon \<Rightarrow> sfield \<Rightarrow> sfield \<times> canon"
where
  "visit_s c (FunctionDef p name args body decorator_list returns tc) =
     (let (args', c1) = visit_e c args;
          (body', c2) = visit_ss c1 body;
          (decorator_list', c3) = visit_es c2 decorator_list;
          (returns', c4) = visit_eo c3 returns
      in (FunctionDef p ''_fn'' args' body' [] None tc, c4))"
| "visit_s c (ClassDef p name bases keywords body decorator_list) =
     (let (bases', c1) = visit_es c bases;
          (keywords', c2) = visit_es c1 keywords;
          (body', c3) = visit_ss c2 body;
          (decorator_list', c4) = visit_es c3 decorator_list
      in (ClassDef p ''_cls'' [] keywords' body' [], c4))"
| "visit_s c (If p test body orelse) =
     (let (test', c1) = visit_e c test;
          (body', c2) = visit_ss c1 body;
          (orelse', c3) = visit_ss c2 orelse
      in (If p test' body' orelse', c3))"
| "visit_s c (For p target iter body orelse tc) =
     (let (target', c1) = visit_e c target;
          (iter', c2) = visit_e c1 iter;
          (body', c3) = visit_ss c2 body;
          (orelse', c4) = visit_ss c3 orelse
      in (For p target' iter' body' orelse' tc, c4))"
| "visit_s c (While p test body orelse) =
     (let (test', c1) = visit_e c test;
          (body', c2) = visit_ss c1 body;
          (orelse', c3) = visit_ss c2 orelse
      in (While p test' body' orelse', c3))"
| "visit_s c (With p items body tc) =
     (let (items', c1) = visit_es c items;
          (body', c2) = visit_ss c1 body
      in (With p items' body' tc, c2))"
| "visit_s c (Try p body handlers orelse finalbody) =
     (let (body', c1) = visit_ss c body;
          (handlers', c2) = visit_ss c1 handlers;
          (orelse', c3) = visit_ss c2 orelse;
          (finalbody', c4) = visit_ss c3 finalbody
      in (Try p body' handlers' orelse' finalbody', c4))"
| "visit_s c (ExceptHandler p type name body) =
     (let (type', c1) = visit_eo c type;
          (body', c2) = visit_ss c1 body
      in (ExceptHandler p type' name body', c2))"
| "visit_s c (Module body type_ignores) =
     (let (body', c1) = visit_ss c body;
          (type_ignores', c2) = visit_es c1 type_ignores
      in (Module body' type_ignores', c2))"
| "visit_s c (SNode cls p fs) = (let (fs', c1) = visit_sfields c fs in (SNode cls p fs', c1))"
| "visit_ss c [] = ([], c)"
| "visit_ss c (s # ss) =
     (let (s', c1) = visit_s c s; (ss', c2) = visit_ss c1 ss in (s' # ss', c2))"
| "visit_sfields c [] = ([], c)"
| "visit_sfields c ((n, f) # fs) =
     (let (f', c1) = visit_sfield c f; (fs', c2) = visit_sfields c1 fs in ((n, f') # fs', c2))"
| "visit_sfield c (SExpr e) = (let (e', c1) = visit_e c e in (SExpr e', c1))"
| "visit_sfield c (SExprs es) = (let (es', c1) = visit_es c es in (SExprs es', c1))"
| "visit_sfield c (SOpts es) = (let (es', c1) = visit_eos c es in (SOpts es', c1))"
| "visit_sfield c (SStmts ss) = (let (ss', c1) = visit_ss c ss in (SStmts ss', c1))"
| "visit_sfield c (SVal v) = (SVal v, c)"
| "visit_sfield c (SVals vs) = (SVals vs, c)"
| "visit_sfield c SNone = (SNone, c)"

subsection \<open>Locations\<close>

fun position_of :: "snode \<Rightarrow> position option" where
  "position_of (FunctionDef p name args body decorator_list returns tc) = Some p"
| "position_of (ClassDef p name bases keywords body decorator_list) = Some p"
| "position_of (If p test body orelse) = Some p"
| "position_of (For p target iter body orelse tc) = Some p"
| "position_of (While p test body orelse) = Some p"
| "position_of (With p items body tc) = Some p"
| "position_of (Try p body handlers orelse finalbody) = Some p"
| "position_of (ExceptHandler p type name body) = Some p"
| "position_of (Module body type_ignores) = None"
| "position_of (SNode cls p fs) = p"

text \<open>\<open>node.lineno\<close> and \<open>node.end_lineno\<close>, \<open>None\<close> when the attribute is missing.\<close>

definition lineno_of :: "snode \<Rightarrow> int option" where
  "lineno_of s = (case position_of s of None \<Rightarrow> None | Some p \<Rightarrow> fst p)"

definition end_lineno_of :: "snode \<Rightarrow> int option" where
  "end_lineno_of s = (case position_of s of None \<Rightarrow> None | Some p \<Rightarrow> snd p)"

text \<open>
  \<open>ast.fix_missing_locations\<close>: \<open>_fix\<close> gives a node that lacks \<open>lineno\<close> (or
  \<open>end_lineno\<close>) the value handed down by its parent, and hands its own values down to its
  children; a node of a class without location attributes hands down what it received.
\<close>

definition fix_position :: "int \<times> int \<Rightarrow> position \<Rightarrow> int \<times> int" where
  "fix_position inh p =
     (case fst p of None \<Rightarrow> fst inh | Some l \<Rightarrow> l, case snd p of None \<Rightarrow> snd inh | Some e \<Rightarrow> e)"

definition located :: "int \<times> int \<Rightarrow> position" where
  "located v = (Some (fst v), Some (snd v))"

fun fix_s :: "int \<times> int \<Rightarrow> snode \<Rightarrow> snode"
  and fix_ss :: "int \<times> int \<Rightarrow> snode list \<Rightarrow> snode list"
  and fix_sfields :: "int \<times> int \<Rightarrow> (string \<times> sfield) list \<Rightarrow> (string \<times> sfield) list"
  and fix_sfield :: "int \<times> int \<Rightarrow> sfield \<Rightarrow> sfield"
where
  "fix_s inh (FunctionDef p name args body decorator_list returns tc) =
     FunctionDef (located (fix_position inh p)) name args (fix_ss (fix_position inh p) body)
       decorator_list returns tc"
| "fix_s inh (ClassDef p name bases keywords body decorator_list) =
     ClassDef (located (fix_position inh p)) name bases keywords
       (fix_ss (fix_position inh p) body) decorator_list"
| "fix_s inh (If p test body orelse) =
     If (located (fix_position inh p)) test (fix_ss (fix_position inh p) body)
       (fix_ss (fix_position inh p) orelse)"
| "fix_s inh (For p target iter body orelse tc) =
     For (located (fix_position inh p)) target iter (fix_ss (fix_position inh p) body)
       (fix_ss (fix_position inh p) orelse) tc"
| "fix_s inh (While p test body orelse) =
     While (located (fix_position inh p)) test (fix_ss (fix_position inh p) body)
       (fix_ss (fix_position inh p) orelse)"
| "fix_s inh (With p items body tc) =
     With (located (fix_position inh p)) items (fix_ss (fix_position inh p) body) tc"
| "fix_s inh (Try p body handlers orelse finalbody) =
     Try (located (fix_position inh p)) (fix_ss (fix_position inh p) body)
       (fix_ss (fix_position inh p) handlers) (fix_ss (fix_position inh p) orelse)
       (fix_ss (fix_position inh p) finalbody)"
| "fix_s inh (ExceptHandler p type name body) =
     ExceptHandler (located (fix_position inh p)) type name (fix_ss (fix_position inh p) body)"
| "fix_s inh (Module body type_ignores) = Module (fix_ss inh body) type_ignores"
| "fix_s inh (SNode cls None fs) = SNode cls None (fix_sfields inh fs)"
| "fix_s inh (SNode cls (Some p) fs) =
     SNode cls (Some (located (fix_position inh p))) (fix_sfields (fix_position inh p) fs)"
| "fix_ss inh [] = []"
| "fix_ss inh (s # ss) = fix_s inh s # fix_ss inh ss"
| "fix_sfields inh [] = []"
| "fix_sfields inh ((n, f) # fs) = (n, fix_sfield inh f) # fix_sfields inh fs"
| "fix_sfield inh (SStmts ss) = SStmts (fix_ss inh ss)"
| "fix_sfield inh (SExpr e) = SExpr e"
| "fix_sfield inh (SExprs es) = SExprs es"
| "fix_sfield inh (SOpts es) = SOpts es"
| "fix_sfield inh (SVal v) = SVal v"
| "fix_sfield inh (SVals vs) = SVals vs"
| "fix_sfield inh SNone = SNone"

definition fix_missing_locations :: "snode \<Rightarrow> snode" where
  "fix_missing_locations node = fix_s (1, 1) node"

subsection \<open>Canonical dump of a block\<close>

fun body_of_module :: "snode \<Rightarrow> snode list" where
  "body_of_module (Module body type_ignores) = body"
| "body_of_module other = []"

text \<open>
  \<open>canonical_block_dump\<close>, with \<open>hashlib.sha256(...).hexdigest()\<close> as \<open>sha256\<close> and
  \<open>ast.dump(..., annotate_fields=False, include_attributes=False)\<close> as \<open>dump\<close>.
  \<open>NodeTransformer\<close> and \<open>fix_missing_locations\<close> work in place: the statement objects of
  \<open>stmts\<close> are the statement objects of \<open>module2\<close> afterwards. The second component of
  the result is that state of the statements; the first is the pair the function returns.
\<close>

definition canonical_block_dump ::
  "(string \<Rightarrow> string) \<Rightarrow> (snode \<Rightarrow> string) \<Rightarrow> snode list \<Rightarrow> (string \<times> string) \<times> snode list" where
  "canonical_block_dump sha256 dump stmts =
     (let module1 = Module stmts [];
          (module2, canon) = visit_s init_canon module1;
          module3 = fix_missing_locations module2;
          dumped = dump module3
      in ((sha256 dumped, dumped), body_of_module module3))"

subsection \<open>Sequence extractor\<close>

datatype error = AttributeError | IndexError | TypeError

type_synonym entry = "string \<times> occurrence"

text \<open>
  One iteration of the loop \<open>for i in range(0, n - length + 1)\<close> of \<open>_walk_body\<close>.
  The result is the state of the statements after the iteration and what the iteration
  appends to \<open>sequences\<close>: a pair \<open>(h, (start, end, dumped))\<close>, or nothing when the
  iteration ends with \<open>continue\<close>. \<open>block[0]\<close> of an empty block raises \<open>IndexError\<close>;
  \<open>block[-1].lineno\<close>, evaluated as the default of \<open>getattr\<close>, raises \<open>AttributeError\<close>
  when the last statement has no \<open>lineno\<close>.
\<close>

definition walk_window ::
  "(string \<Rightarrow> string) \<Rightarrow> (snode \<Rightarrow> string) \<Rightarrow> nat \<Rightarrow> snode list \<Rightarrow> nat
   \<Rightarrow> error + (snode list \<times> entry option)" where
  "walk_window sha256 dump len stmts i =
     (case take len (drop i stmts) of
        [] \<Rightarrow> Inl IndexError
      | b0 # _ \<Rightarrow>
          if lineno_of b0 = None then Inr (stmts, None)
          else
            let ((h, dumped), block) = canonical_block_dump sha256 dump (take len (drop i stmts));
                stmts' = take i stmts @ block @ drop (i + len) stmts
            in case block of
                 [] \<Rightarrow> Inl IndexError
               | b0' # _ \<Rightarrow>
                   (case (lineno_of b0', lineno_of (last block)) of
                      (Some start, Some last_lineno) \<Rightarrow>
                        let end = (case end_lineno_of (last block) of
                                     Some e \<Rightarrow> e | None \<Rightarrow> last_lineno)
                        in Inr (stmts', Some (h, (start, end, dumped)))
                    | _ \<Rightarrow> Inl AttributeError))"

text \<open>The loop \<open>for i in range(0, n - length + 1)\<close>, over the list of offsets.\<close>

fun walk_offsets ::
  "(string \<Rightarrow> string) \<Rightarrow> (snode \<Rightarrow> string) \<Rightarrow> nat \<Rightarrow> snode list \<Rightarrow> nat list
   \<Rightarrow> error + (snode list \<times> entry list)" where
  "walk_offsets sha256 dump len stmts [] = Inr (stmts, [])"
| "walk_offsets sha256 dump len stmts (i # is) =
     (case walk_window sha256 dump len stmts i of
        Inl err \<Rightarrow> Inl err
      | Inr (stmts', appended) \<Rightarrow>
          (case walk_offsets sha256 dump len stmts' is of
             Inl err \<Rightarrow> Inl err
           | Inr (stmts'', entries) \<Rightarrow>
               Inr (stmts'', (case appended of None \<Rightarrow> entries | Some x \<Rightarrow> x # entries))))"

text \<open>The loop \<open>for length in range(max_len, min_len - 1, -1)\<close>, over the list of lengths.\<close>

fun walk_lengths ::
  "(string \<Rightarrow> string) \<Rightarrow> (snode \<Rightarrow> string) \<Rightarrow> nat \<Rightarrow> snode list \<Rightarrow> nat list
   \<Rightarrow> error + (snode list \<times> entry list)" where
  "walk_lengths sha256 dump n stmts [] = Inr (stmts, [])"
| "walk_lengths sha256 dump n stmts (len # lens) =
     (if n < len then walk_lengths sha256 dump n stmts lens
      else case walk_offsets sha256 dump len stmts [0..<n - len + 1] of
             Inl err \<Rightarrow> Inl err
           | Inr (stmts', entries) \<Rightarrow>
               (case walk_lengths sha256 dump n stmts' lens of
                  Inl err \<Rightarrow> Inl err
                | Inr (stmts'', entries') \<Rightarrow> Inr (stmts'', entries @ entries')))"

definition walk_body ::
  "(string \<Rightarrow> string) \<Rightarrow> (snode \<Rightarrow> string) \<Rightarrow> nat \<Rightarrow> nat \<Rightarrow> snode list
   \<Rightarrow> error + (snode list \<times> entry list)" where
  "walk_body sha256 dump min_len max_len stmts =
     walk_lengths sha256 dump (length stmts) stmts (rev [min_len..<max_len + 1])"

text \<open>The statement-level children of a node, in the order of its fields: what
  \<open>NodeVisitor.generic_visit\<close> visits below it, expression-level nodes apart.\<close>

fun stmts_of_sfields :: "(string \<times> sfield) list \<Rightarrow> snode list" where
  "stmts_of_sfields [] = []"
| "stmts_of_sfields ((n, SStmts ss) # fs) = ss @ stmts_of_sfields fs"
| "stmts_of_sfields ((n, f) # fs) = stmts_of_sfields fs"

fun children_s :: "snode \<Rightarrow> snode list" where
  "children_s (FunctionDef p name args body decorator_list returns tc) = body"
| "children_s (ClassDef p name bases keywords body decorator_list) = body"
| "children_s (If p test body orelse) = body @ orelse"
| "children_s (For p target iter body orelse tc) = body @ orelse"
| "children_s (While p test body orelse) = body @ orelse"
| "children_s (With p items body tc) = body"
| "children_s (Try p body handlers orelse finalbody) = body @ handlers @ orelse @ finalbody"
| "children_s (ExceptHandler p type name body) = body"
| "children_s (Module body type_ignores) = body"
| "children_s (SNode cls p fs) = stmts_of_sfields fs"

text \<open>The number of statement-level nodes of a tree.\<close>

fun stmt_count :: "snode \<Rightarrow> nat"
  and stmts_count :: "snode list \<Rightarrow> nat"
  and sfields_count :: "(string \<times> sfield) list \<Rightarrow> nat"
  and sfield_count :: "sfield \<Rightarrow> nat"
where
  "stmt_count (FunctionDef p name args body decorator_list returns tc) = 1 + stmts_count body"
| "stmt_count (ClassDef p name bases keywords body decorator_list) = 1 + stmts_count body"
| "stmt_count (If p test body orelse) = 1 + stmts_count body + stmts_count orelse"
| "stmt_count (For p target iter body orelse tc) = 1 + stmts_count body + stmts_count orelse"
| "stmt_count (While p test body orelse) = 1 + stmts_count body + stmts_count orelse"
| "stmt_count (With p items body tc) = 1 + stmts_count body"
| "stmt_count (Try p body handlers orelse finalbody) =
     1 + stmts_count body + stmts_count handlers + stmts_count orelse + stmts_count finalbody"
| "stmt_count (ExceptHandler p type name body) = 1 + stmts_count body"
| "stmt_count (Module body type_ignores) = 1 + stmts_count body"
| "stmt_count (SNode cls p fs) = 1 + sfields_count fs"
| "stmts_count [] = 0"
| "stmts_count (s # ss) = stmt_count s + stmts_count ss"
| "sfields_count [] = 0"
| "sfields_count ((n, f) # fs) = sfield_count f + sfields_count fs"
| "sfield_count (SStmts ss) = stmts_count ss"
| "sfield_count (SExpr e) = 0"
| "sfield_count (SExprs es) = 0"
| "sfield_count (SOpts es) = 0"
| "sfield_count (SVal v) = 0"
| "sfield_count (SVals vs) = 0"
| "sfield_count SNone = 0"

text \<open>\<open>h.body\<close> for a handler \<open>h\<close>: any node with a field \<open>body\<close> answers; a node without
  one raises \<open>AttributeError\<close>. No class of the grammar has a statement-level node whose
  \<open>body\<close> is not a list of statements; the model stops with \<open>TypeError\<close> there.\<close>

fun body_attr :: "snode \<Rightarrow> error + snode list" where
  "body_attr (FunctionDef p name args body decorator_list returns tc) = Inr body"
| "body_attr (ClassDef p name bases keywords body decorator_list) = Inr body"
| "body_attr (If p test body orelse) = Inr body"
| "body_attr (For p target iter body orelse tc) = Inr body"
| "body_attr (While p test body orelse) = Inr body"
| "body_attr (With p items body tc) = Inr body"
| "body_attr (Try p body handlers orelse finalbody) = Inr body"
| "body_attr (ExceptHandler p type name body) = Inr body"
| "body_attr (Module body type_ignores) = Inr body"
| "body_attr (SNode cls p fs) =
     (case map_of fs ''body'' of
        None \<Rightarrow> Inl AttributeError
      | Some (SStmts ss) \<Rightarrow> Inr ss
      | Some other \<Rightarrow> Inl TypeError)"

text \<open>The node \<open>h\<close> once the statements of \<open>h.body\<close> have been changed in place.\<close>

fun set_body_sfields :: "(string \<times> sfield) list \<Rightarrow> snode list \<Rightarrow> (string \<times> sfield) list" where
  "set_body_sfields [] ss = []"
| "set_body_sfields ((n, f) # fs) ss =
     (if n = ''body'' then (n, SStmts ss) # fs else (n, f) # set_body_sfields fs ss)"

fun set_body :: "snode \<Rightarrow> snode list \<Rightarrow> snode" where
  "set_body (FunctionDef p name args body decorator_list returns tc) ss =
     FunctionDef p name args ss decorator_list returns tc"
| "set_body (ClassDef p name bases keywords body decorator_list) ss =
     ClassDef p name bases keywords ss decorator_list"
| "set_body (If p test body orelse) ss = If p test ss orelse"
| "set_body (For p target iter body orelse tc) ss = For p target iter ss orelse tc"
| "set_body (While p test body orelse) ss = While p test ss orelse"
| "set_body (With p items body tc) ss = With p items ss tc"
| "set_body (Try p body handlers orelse finalbody) ss = Try p ss handlers orelse finalbody"
| "set_body (ExceptHandler p type name body) ss = ExceptHandler p type name ss"
| "set_body (Module body type_ignores) ss = Module ss type_ignores"
| "set_body (SNode cls p fs) ss = SNode cls p (set_body_sfields fs ss)"

text \<open>\<open>for h in node.handlers: self._walk_body(h.body)\<close>.\<close>

fun walk_handlers ::
  "(string \<Rightarrow> string) \<Rightarrow> (snode \<Rightarrow> string) \<Rightarrow> nat \<Rightarrow> nat \<Rightarrow> snode list
   \<Rightarrow> error + (snode list \<times> entry list)" where
  "walk_handlers sha256 dump min_len max_len [] = Inr ([], [])"
| "walk_handlers sha256 dump min_len max_len (h # hs) =
     (case body_attr h of
        Inl err \<Rightarrow> Inl err
      | Inr body \<Rightarrow>
          (case walk_body sha256 dump min_len max_len body of
             Inl err \<Rightarrow> Inl err
           | Inr (body', entries) \<Rightarrow>
               (case walk_handlers sha256 dump min_len max_len hs of
                  Inl err \<Rightarrow> Inl err
                | Inr (hs', entries') \<Rightarrow> Inr (set_body h body' # hs', entries @ entries'))))"

subsection \<open>Canonicalization and location fixing keep the statement structure\<close>

lemma visit_s_count:
  "stmt_count (fst (visit_s c s)) = stmt_count s"
  "stmts_count (fst (visit_ss c ss)) = stmts_count ss"
  "sfields_count (fst (visit_sfields c fs)) = sfields_count fs"
  "sfield_count (fst (visit_sfield c f)) = sfield_count f"
  by (induction c s and c ss and c fs and c f
      rule: visit_s_visit_ss_visit_sfields_visit_sfield.induct)
     (auto simp: Let_def split: prod.splits)

lemma fix_s_count:
  "stmt_count (fix_s inh s) = stmt_count s"
  "stmts_count (fix_ss inh ss) = stmts_count ss"
  "sfields_count (fix_sfields inh fs) = sfields_count fs"
  "sfield_count (fix_sfield inh f) = sfield_count f"
  by (induction inh s and inh ss and inh fs and inh f
      rule: fix_s_fix_ss_fix_sfields_fix_sfield.induct) simp_all

lemma stmts_count_append [simp]: "stmts_count (xs @ ys) = stmts_count xs + stmts_count ys"
  by (induction xs) simp_all

lemma canonical_block_dump_count:
  "stmts_count (snd (canonical_block_dump sha256 dump stmts)) = stmts_count stmts"
  using visit_s_count(2) [of init_canon stmts]
  by (simp add: canonical_block_dump_def fix_missing_locations_def case_prod_beta Let_def
      fix_s_count)

lemma stmts_count_take_drop:
  "stmts_count (take n xs) + stmts_count (drop n xs) = stmts_count xs"
  by (metis append_take_drop_id stmts_count_append)

lemma walk_window_count:
  assumes "walk_window sha256 dump len stmts i = Inr (stmts', appended)"
  shows "stmts_count stmts' = stmts_count stmts"
proof -
  let ?blk = "take len (drop i stmts)"
  let ?res = "canonical_block_dump sha256 dump ?blk"
  let ?stmts' = "take i stmts @ snd ?res @ drop (i + len) stmts"
  have same: "stmts_count ?stmts' = stmts_count stmts"
  proof -
    have "stmts_count (snd ?res) = stmts_count ?blk" by (rule canonical_block_dump_count)
    moreover have "stmts_count ?blk + stmts_count (drop (i + len) stmts) = stmts_count (drop i stmts)"
      using stmts_count_take_drop [of len "drop i stmts"] by (simp add: add.commute)
    ultimately show ?thesis using stmts_count_take_drop [of i stmts] by simp
  qed
  from assms have "stmts' = stmts \<or> stmts' = ?stmts'"
    by (auto simp: walk_window_def case_prod_beta Let_def
        split: list.splits if_splits option.splits)
  with same show ?thesis by auto
qed

lemma walk_offsets_count:
  "walk_offsets sha256 dump len stmts offs = Inr (stmts', entries)
   \<Longrightarrow> stmts_count stmts' = stmts_count stmts"
proof (induction offs arbitrary: stmts entries)
  case Nil
  then show ?case by simp
next
  case (Cons i offs)
  from Cons.prems show ?case
    by (auto split: sum.splits dest!: Cons.IH walk_window_count)
qed

lemma walk_lengths_count:
  "walk_lengths sha256 dump n stmts lens = Inr (stmts', entries)
   \<Longrightarrow> stmts_count stmts' = stmts_count stmts"
proof (induction lens arbitrary: stmts entries)
  case Nil
  then show ?case by simp
next
  case (Cons len lens)
  from Cons.prems show ?case
    by (auto split: if_splits sum.splits dest!: Cons.IH walk_offsets_count)
qed

lemma walk_body_count:
  "walk_body sha256 dump min_len max_len stmts = Inr (stmts', entries)
   \<Longrightarrow> stmts_count stmts' = stmts_count stmts"
  unfolding walk_body_def by (rule walk_lengths_count)

lemma set_body_sfields_count:
  "map_of fs ''body'' = Some (SStmts body) \<Longrightarrow> stmts_count ss = stmts_count body
   \<Longrightarrow> sfields_count (set_body_sfields fs ss) = sfields_count fs"
  by (induction fs ss rule: set_body_sfields.induct) (auto split: if_splits)

lemma set_body_count:
  "body_attr h = Inr body \<Longrightarrow> stmts_count ss = stmts_count body
   \<Longrightarrow> stmt_count (set_body h ss) = stmt_count h"
  by (cases h) (auto simp: set_body_sfields_count split: option.splits sfield.splits)

lemma walk_handlers_count:
  "walk_handlers sha256 dump min_len max_len hs = Inr (hs', entries)
   \<Longrightarrow> stmts_count hs' = stmts_count hs"
proof (induction hs arbitrary: hs' entries)
  case Nil
  then show ?case by simp
next
  case (Cons h hs)
  from Cons.prems show ?case
    by (auto split: sum.splits dest!: Cons.IH walk_body_count simp: set_body_count)
qed

lemma stmts_of_sfields_count: "stmts_count (stmts_of_sfields fs) = sfields_count fs"
  by (induction fs rule: stmts_of_sfields.induct) simp_all

lemma children_s_count: "stmt_count s = 1 + stmts_count (children_s s)"
  by (cases s) (simp_all add: stmts_of_sfields_count)

lemma stmt_count_pos: "0 < stmt_count s"
  by (simp add: children_s_count)

text \<open>
  \<open>BodyWalker.visit\<close>. \<open>_walk_and_visit\<close> walks the body (and the \<open>orelse\<close> list when asked
  to) and then visits the children; \<open>visit_Try\<close> walks the body, the \<open>orelse\<close> list, the
  \<open>finalbody\<close> list and the body of every handler; a node of any other kind is visited by
  \<open>generic_visit\<close>, which visits its children one after the other. Visiting an
  expression-level node appends nothing, so only the statement-level children appear.
  The result lists the pairs appended to \<open>sequences\<close>, in order.
\<close>

function walker ::
    "(string \<Rightarrow> string) \<Rightarrow> (snode \<Rightarrow> string) \<Rightarrow> nat \<Rightarrow> nat \<Rightarrow> snode \<Rightarrow> error + entry list"
  and walkers ::
    "(string \<Rightarrow> string) \<Rightarrow> (snode \<Rightarrow> string) \<Rightarrow> nat \<Rightarrow> nat \<Rightarrow> snode list \<Rightarrow> error + entry list"
where
  "walker sha256 dump min_len max_len (FunctionDef p name args body decorator_list returns tc) =
     (case walk_body sha256 dump min_len max_len body of
        Inl err \<Rightarrow> Inl err
      | Inr (body', entries) \<Rightarrow>
          (case walkers sha256 dump min_len max_len body' of
             Inl err \<Rightarrow> Inl err
           | Inr entries' \<Rightarrow> Inr (entries @ entries')))"
| "walker sha256 dump min_len max_len (If p test body orelse) =
     (case walk_body sha256 dump min_len max_len body of
        Inl err \<Rightarrow> Inl err
      | Inr (body', entries1) \<Rightarrow>
          (case walk_body sha256 dump min_len max_len orelse of
             Inl err \<Rightarrow> Inl err
           | Inr (orelse', entries2) \<Rightarrow>
               (case walkers sha256 dump min_len max_len (body' @ orelse') of
                  Inl err \<Rightarrow> Inl err
                | Inr entries' \<Rightarrow> Inr (entries1 @ entries2 @ entries'))))"
| "walker sha256 dump min_len max_len (For p target iter body orelse tc) =
     (case walk_body sha256 dump min_len max_len body of
        Inl err \<Rightarrow> Inl err
      | Inr (body', entries1) \<Rightarrow>
          (case walk_body sha256 dump min_len max_len orelse of
             Inl err \<Rightarrow> Inl err
           | Inr (orelse', entries2) \<Rightarrow>
               (case walkers sha256 dump min_len max_len (body' @ orelse') of
                  Inl err \<Rightarrow> Inl err
                | Inr entries' \<Rightarrow> Inr (entries1 @ entries2 @ entries'))))"
| "walker sha256 dump min_len max_len (While p test body orelse) =
     (case walk_body sha256 dump min_len max_len body of
        Inl err \<Rightarrow> Inl err
      | Inr (body', entries1) \<Rightarrow>
          (case walk_body sha256 dump min_len max_len orelse of
             Inl err \<Rightarrow> Inl err
           | Inr (orelse', entries2) \<Rightarrow>
               (case walkers sha256 dump min_len max_len (body' @ orelse') of
                  Inl err \<Rightarrow> Inl err
                | Inr entries' \<Rightarrow> Inr (entries1 @ entries2 @ entries'))))"
| "walker sha256 dump min_len max_len (With p items body tc) =
     (case walk_body sha256 dump min_len max_len body of
        Inl err \<Rightarrow> Inl err
      | Inr (body', entries) \<Rightarrow>
          (case walkers sha256 dump min_len max_len body' of
             Inl err \<Rightarrow> Inl err
           | Inr entries' \<Rightarrow> Inr (entries @ entries')))"
| "walker sha256 dump min_len max_len (Try p body handlers orelse finalbody) =
     (case walk_body sha256 dump min_len max_len body of
        Inl err \<Rightarrow> Inl err
      | Inr (body', entries1) \<Rightarrow>
          (case walk_body sha256 dump min_len max_len orelse of
             Inl err \<Rightarrow> Inl err
           | Inr (orelse', entries2) \<Rightarrow>
               (case walk_body sha256 dump min_len max_len finalbody of
                  Inl err \<Rightarrow> Inl err
                | Inr (finalbody', entries3) \<Rightarrow>
                    (case walk_handlers sha256 dump min_len max_len handlers of
                       Inl err \<Rightarrow> Inl err
                     | Inr (handlers', entries4) \<Rightarrow>
                         (case walkers sha256 dump min_len max_len
                                 (body' @ handlers' @ orelse' @ finalbody') of
                            Inl err \<Rightarrow> Inl err
                          | Inr entries' \<Rightarrow>
                              Inr (entries1 @ entries2 @ entries3 @ entries4 @ entries'))))))"
| "walker sha256 dump min_len max_len (Module body type_ignores) =
     (case walk_body sha256 dump min_len max_len body of
        Inl err \<Rightarrow> Inl err
      | Inr (body', entries) \<Rightarrow>
          (case walkers sha256 dump min_len max_len body' of
             Inl err \<Rightarrow> Inl err
           | Inr entries' \<Rightarrow> Inr (entries @ entries')))"
| "walker sha256 dump min_len max_len (ClassDef p name bases keywords body decorator_list) =
     walkers sha256 dump min_len max_len
       (children_s (ClassDef p name bases keywords body decorator_list))"
| "walker sha256 dump min_len max_len (ExceptHandler p type name body) =
     walkers sha256 dump min_len max_len (children_s (ExceptHandler p type name body))"
| "walker sha256 dump min_len max_len (SNode cls p fs) =
     walkers sha256 dump min_len max_len (children_s (SNode cls p fs))"
| "walkers sha256 dump min_len max_len [] = Inr []"
| "walkers sha256 dump min_len max_len (s # ss) =
     (case walker sha256 dump min_len max_len s of
        Inl err \<Rightarrow> Inl err
      | Inr entries \<Rightarrow>
          (case walkers sha256 dump min_len max_len ss of
             Inl err \<Rightarrow> Inl err
           | Inr entries' \<Rightarrow> Inr (entries @ entries')))"
  by pat_completeness auto
termination
proof (relation "measure (\<lambda>x. case x of
          Inl (sha256, dump, min_len, max_len, s) \<Rightarrow> 2 * stmt_count s
        | Inr (sha256, dump, min_len, max_len, ss) \<Rightarrow> 2 * stmts_count ss + 1)",
      goal_cases)
  case 1
  show ?case by simp
next
  case (2 sha256 dump min_len max_len p name args body decorator_list returns tc x2 x y)
  then show ?case by (auto dest!: walk_body_count)
next
  case 3
  then show ?case by (auto dest!: walk_body_count)
next
  case 4
  then show ?case by (auto dest!: walk_body_count)
next
  case 5
  then show ?case by (auto dest!: walk_body_count)
next
  case 6
  then show ?case by (auto dest!: walk_body_count)
next
  case 7
  then show ?case by (auto dest!: walk_body_count walk_handlers_count)
next
  case 8
  then show ?case by (auto dest!: walk_body_count)
next
  case 9
  then show ?case by simp
next
  case 10
  then show ?case by simp
next
  case 11
  then show ?case by (simp add: stmts_of_sfields_count)
next
  case 12
  then show ?case by simp
next
  case 13
  then show ?case by (simp add: stmt_count_pos)
qed

text \<open>
  \<open>collect_sequences\<close>: \<open>sequences.setdefault(h, []).append((start, end, dumped))\<close> for
  every pair that the walk appends, in order.
\<close>

definition collect_sequences ::
  "(string \<Rightarrow> string) \<Rightarrow> (snode \<Rightarrow> string) \<Rightarrow> nat \<Rightarrow> nat \<Rightarrow> snode \<Rightarrow> error + seqs" where
  "collect_sequences sha256 dump min_len max_len tree =
     (case walker sha256 dump min_len max_len tree of
        Inl err \<Rightarrow> Inl err
      | Inr entries \<Rightarrow> Inr (foldl (\<lambda>sequences (h, occ). dict_append sequences h occ) [] entries))"

text \<open>\<open>check\<close>, with the default window lengths of \<open>collect_sequences\<close>.\<close>

definition check ::
  "(string \<Rightarrow> string) \<Rightarrow> (snode \<Rightarrow> string) \<Rightarrow> (line_range list \<Rightarrow> line_range list)
   \<Rightarrow> snode \<Rightarrow> string \<Rightarrow> error + finding list" where
  "check sha256 dump set_iter tree file =
     (case collect_sequences sha256 dump 2 6 tree of
        Inl err \<Rightarrow> Inl err
      | Inr sq \<Rightarrow> Inr (check_seqs set_iter sq file))"

subsection \<open>A model of \<open>ast.dump\<close> and stand-ins for the other library functions\<close>

text \<open>
  \<open>ast.dump(node, annotate_fields=False, include_attributes=False)\<close> as Python 3.11 has
  it: a node prints as its class name and its fields in order; an optional field that is
  \<open>None\<close> is left out, and every field after it is printed as \<open>name=value\<close>; a list
  prints in brackets, anything else by \<open>repr\<close>. The general statements below hold for every
  \<open>dump\<close>; this one serves where a concrete result is computed.
\<close>

fun dump_args :: "bool \<Rightarrow> (string \<times> string option) list \<Rightarrow> string list" where
  "dump_args keywords [] = []"
| "dump_args keywords ((name, None) # fs) = dump_args True fs"
| "dump_args keywords ((name, Some v) # fs) =
     (if keywords then name @ ''='' @ v else v) # dump_args keywords fs"

definition node_str :: "string \<Rightarrow> (string \<times> string option) list \<Rightarrow> string" where
  "node_str cls fs = cls @ ''('' @ join '', '' (dump_args False fs) @ '')''"

definition list_str :: "string list \<Rightarrow> string" where
  "list_str xs = ''['' @ join '', '' xs @ '']''"

fun dump_e :: "enode \<Rightarrow> string"
  and dump_es :: "enode list \<Rightarrow> string list"
  and dump_eo :: "enode option \<Rightarrow> string option"
  and dump_eos :: "enode option list \<Rightarrow> string list"
  and dump_efields :: "(string \<times> efield) list \<Rightarrow> (string \<times> string option) list"
  and dump_efield :: "efield \<Rightarrow> string option"
where
  "dump_e (Name n ctx) = node_str ''Name'' [(''id'', Some (repr_str n)), (''ctx'', Some (dump_e ctx))]"
| "dump_e (Arg a ann tc) =
     node_str ''arg'' [(''arg'', Some (repr_str a)), (''annotation'', dump_eo ann),
                       (''type_comment'', map_option repr_str tc)]"
| "dump_e (Attribute v a ctx) =
     node_str ''Attribute'' [(''value'', Some (dump_e v)), (''attr'', Some (repr_str a)),
                             (''ctx'', Some (dump_e ctx))]"
| "dump_e (Constant v k) =
     node_str ''Constant'' [(''value'', Some (py_repr v)), (''kind'', map_option repr_str k)]"
| "dump_e (ENode cls fs) = node_str cls (dump_efields fs)"
| "dump_es [] = []"
| "dump_es (e # es) = dump_e e # dump_es es"
| "dump_eo None = None"
| "dump_eo (Some e) = Some (dump_e e)"
| "dump_eos [] = []"
| "dump_eos (None # es) = ''None'' # dump_eos es"
| "dump_eos (Some e # es) = dump_e e # dump_eos es"
| "dump_efields [] = []"
| "dump_efields ((n, f) # fs) = (n, dump_efield f) # dump_efields fs"
| "dump_efield (EExpr e) = Some (dump_e e)"
| "dump_efield (EExprs es) = Some (list_str (dump_es es))"
| "dump_efield (EOpts es) = Some (list_str (dump_eos es))"
| "dump_efield (EVal v) = Some (py_repr v)"
| "dump_efield (EVals vs) = Some (list_str (map py_repr vs))"
| "dump_efield ENone = None"

fun ast_dump :: "snode \<Rightarrow> string"
  and dump_ss :: "snode list \<Rightarrow> string list"
  and dump_sfields :: "(string \<times> sfield) list \<Rightarrow> (string \<times> string option) list"
  and dump_sfield :: "sfield \<Rightarrow> string option"
where
  "ast_dump (FunctionDef p name args body decorator_list returns tc) =
     node_str ''FunctionDef''
       [(''name'', Some (repr_str name)), (''args'', Some (dump_e args)),
        (''body'', Some (list_str (dump_ss body))),
        (''decorator_list'', Some (list_str (dump_es decorator_list))),
        (''returns'', dump_eo returns), (''type_comment'', map_option repr_str tc)]"
| "ast_dump (ClassDef p name bases keywords body decorator_list) =
     node_str ''ClassDef''
       [(''name'', Some (repr_str name)), (''bases'', Some (list_str (dump_es bases))),
        (''keywords'', Some (list_str (dump_es keywords))),
        (''body'', Some (list_str (dump_ss body))),
        (''decorator_list'', Some (list_str (dump_es decorator_list)))]"
| "ast_dump (If p test body orelse) =
     node_str ''If''
       [(''test'', Some (dump_e test)), (''body'', Some (list_str (dump_ss body))),
        (''orelse'', Some (list_str (dump_ss orelse)))]"
| "ast_dump (For p target iter body orelse tc) =
     node_str ''For''
       [(''target'', Some (dump_e target)), (''iter'', Some (dump_e iter)),
        (''body'', Some (list_str (dump_ss body))),
        (''orelse'', Some (list_str (dump_ss orelse))),
        (''type_comment'', map_option repr_str tc)]"
| "ast_dump (While p test body orelse) =
     node_str ''While''
       [(''test'', Some (dump_e test)), (''body'', Some (list_str (dump_ss body))),
        (''orelse'', Some (list_str (dump_ss orelse)))]"
| "ast_dump (With p items body tc) =
     node_str ''With''
       [(''items'', Some (list_str (dump_es items))), (''body'', Some (list_str (dump_ss body))),
        (''type_comment'', map_option repr_str tc)]"
| "ast_dump (Try p body handlers orelse finalbody) =
     node_str ''Try''
       [(''body'', Some (list_str (dump_ss body))),
        (''handlers'', Some (list_str (dump_ss handlers))),
        (''orelse'', Some (list_str (dump_ss orelse))),
        (''finalbody'', Some (list_str (dump_ss finalbody)))]"
| "ast_dump (ExceptHandler p type name body) =
     node_str ''ExceptHandler''
       [(''type'', dump_eo type), (''name'', map_option repr_str name),
        (''body'', Some (list_str (dump_ss body)))]"
| "ast_dump (Module body type_ignores) =
     node_str ''Module''
       [(''body'', Some (list_str (dump_ss body))),
        (''type_ignores'', Some (list_str (dump_es type_ignores)))]"
| "ast_dump (SNode cls p fs) = node_str cls (dump_sfields fs)"
| "dump_ss [] = []"
| "dump_ss (s # ss) = ast_dump s # dump_ss ss"
| "dump_sfields [] = []"
| "dump_sfields ((n, f) # fs) = (n, dump_sfield f) # dump_sfields fs"
| "dump_sfield (SExpr e) = Some (dump_e e)"
| "dump_sfield (SExprs es) = Some (list_str (dump_es es))"
| "dump_sfield (SOpts es) = Some (list_str (dump_eos es))"
| "dump_sfield (SStmts ss) = Some (list_str (dump_ss ss))"
| "dump_sfield (SVal v) = Some (py_repr v)"
| "dump_sfield (SVals vs) = Some (list_str (map py_repr vs))"
| "dump_sfield SNone = None"

text \<open>A collision-free stand-in for the digest, and an iteration order for sets, for the
  places where a concrete result is computed.\<close>

definition plain_digest :: "string \<Rightarrow> string" where
  "plain_digest dumped = dumped"


subsection \<open>Notions used to state the properties of the selection\<close>

text \<open>The source lines of an occurrence: the inclusive range from its start to its end.\<close>

definition lines_of :: "line_range \<Rightarrow> int set" where
  "lines_of r = {fst r..snd r}"

text \<open>All accepted occurrences, group after group, in the order of the \<open>matches\<close> lists.\<close>

definition all_matches :: "selected list \<Rightarrow> line_range list" where
  "all_matches sel = concat (map matches_s sel)"

definition disjoint_ranges :: "line_range \<Rightarrow> line_range \<Rightarrow> bool" where
  "disjoint_ranges a b = (lines_of a \<inter> lines_of b = {})"

definition apart :: "line_range set \<Rightarrow> bool" where
  "apart S = (\<forall>x\<in>S. \<forall>y\<in>S. x \<noteq> y \<longrightarrow> disjoint_ranges x y)"

text \<open>The lines claimed by the groups that are ranked above the group of hash \<open>h\<close>, at the
  moment the greedy loop reaches that group.\<close>

definition claimed_before ::
  "(line_range list \<Rightarrow> line_range list) \<Rightarrow> seqs \<Rightarrow> string \<Rightarrow> int set" where
  "claimed_before set_iter sq h =
     (\<Union>m \<in> set (all_matches (greedy_select set_iter {}
             (takeWhile (\<lambda>c. hash_c c \<noteq> h) (sort_candidates (build_candidates sq))))).
        lines_of m)"

subsection \<open>Example data\<close>

text \<open>
  Canonical dumps of four windows, as \<open>ast.dump\<close> prints them: \<open>dump_ABCD\<close> is the window
  \<open>a = 1; b = a + 2; print(b); c = [a, b]\<close>, \<open>dump_ABC\<close> and \<open>dump_BCD\<close> are its
  three-statement windows, and \<open>dump_DE\<close> is the window \<open>c = [a, b]; del c\<close>.
\<close>

definition dump_ABCD :: string where
  "dump_ABCD = ''Module([Assign([Name('_N0', Store())], Constant('_C0')), Assign([Name('_N1', Store())], BinOp(Name('_N0', Load()), Add(), Constant('_C1'))), Expr(Call(Name('_N2', Load()), [Name('_N1', Load())], [])), Assign([Name('_N3', Store())], List([Name('_N0', Load()), Name('_N1', Load())], Load()))], [])''"

definition dump_ABC :: string where
  "dump_ABC = ''Module([Assign([Name('_N0', Store())], Constant('_C0')), Assign([Name('_N1', Store())], BinOp(Name('_N0', Load()), Add(), Constant('_C1'))), Expr(Call(Name('_N2', Load()), [Name('_N1', Load())], []))], [])''"

definition dump_BCD :: string where
  "dump_BCD = ''Module([Assign([Name('_N0', Store())], BinOp(Name('_N1', Load()), Add(), Constant('_C0'))), Expr(Call(Name('_N2', Load()), [Name('_N0', Load())], [])), Assign([Name('_N3', Store())], List([Name('_N1', Load()), Name('_N0', Load())], Load()))], [])''"

definition dump_DE :: string where
  "dump_DE = ''Module([Assign([Name('_N0', Store())], List([Name('_N1', Load()), Name('_N2', Load())], Load())), Delete([Name('_N0', Del())])], [])''"

text \<open>
  The groups with at least three occurrences that are not trivially sequential, for a module
  of five functions: \<open>g1\<close> (lines 1 to 4) and \<open>g2\<close> (lines 28 to 31) consist of
  \<open>c = [a, b]\<close>, an empty line and \<open>del c\<close>; \<open>f1\<close>, \<open>f2\<close>, \<open>f3\<close> start at
  lines 6, 14 and 21 with the four statements of \<open>dump_ABCD\<close> on consecutive lines; \<open>f1\<close>
  continues with an empty line and \<open>del c\<close>, \<open>f2\<close> with \<open>return c\<close> and \<open>f3\<close> with
  \<open>pass\<close>. The keys stand for the four digests, in the order of discovery, and the dumps
  for the dump strings kept with the groups.
\<close>

definition seqs_five_functions :: seqs where
  "seqs_five_functions =
     [(''hash_DE'', [(2, 4, dump_DE), (10, 12, dump_DE), (29, 31, dump_DE)]),
      (''hash_ABCD'', [(7, 10, dump_ABCD), (15, 18, dump_ABCD), (22, 25, dump_ABCD)]),
      (''hash_ABC'', [(7, 9, dump_ABC), (15, 17, dump_ABC), (22, 24, dump_ABC)]),
      (''hash_BCD'', [(8, 10, dump_BCD), (16, 18, dump_BCD), (23, 25, dump_BCD)])]"

text \<open>A pattern found three times and another one found twice, all far apart.\<close>

definition seqs_three_and_two :: seqs where
  "seqs_three_and_two =
     [(''hash_DE'', [(2, 4, dump_DE), (12, 14, dump_DE), (22, 24, dump_DE)]),
      (''hash_ABC'', [(31, 33, dump_ABC), (41, 43, dump_ABC)])]"

text \<open>The same pattern found three times, with one window recorded twice.\<close>

definition seqs_one_group :: seqs where
  "seqs_one_group =
     [(''hash_ABC'', [(1, 3, dump_ABC), (11, 13, dump_ABC), (1, 3, dump_ABC), (21, 23, dump_ABC)])]"

subsection \<open>Notions used to state the properties of the canonicalizer\<close>

text \<open>
  What a pass asks of the placeholder maps, in the order of the traversal: a name (from
  \<open>visit_Name\<close> or \<open>visit_arg\<close>), an attribute name or a constant.
\<close>

datatype request = ReqName string | ReqAttr string | ReqConst const_value

fun requests_e :: "enode \<Rightarrow> request list"
  and requests_es :: "enode list \<Rightarrow> request list"
  and requests_eo :: "enode option \<Rightarrow> request list"
  and requests_eos :: "enode option list \<Rightarrow> request list"
  and requests_efields :: "(string \<times> efield) list \<Rightarrow> request list"
  and requests_efield :: "efield \<Rightarrow> request list"
where
  "requests_e (Name n ctx) = [ReqName n]"
| "requests_e (Arg a ann tc) = [ReqName a]"
| "requests_e (Attribute v a ctx) = requests_e v @ requests_e ctx @ [ReqAttr a]"
| "requests_e (Constant v k) = [ReqConst v]"
| "requests_e (ENode cls fs) = requests_efields fs"
| "requests_es [] = []"
| "requests_es (e # es) = requests_e e @ requests_es es"
| "requests_eo None = []"
| "requests_eo (Some e) = requests_e e"
| "requests_eos [] = []"
| "requests_eos (e # es) = requests_eo e @ requests_eos es"
| "requests_efields [] = []"
| "requests_efields ((n, f) # fs) = requests_efield f @ requests_efields fs"
| "requests_efield (EExpr e) = requests_e e"
| "requests_efield (EExprs es) = requests_es es"
| "requests_efield (EOpts es) = requests_eos es"
| "requests_efield (EVal v) = []"
| "requests_efield (EVals vs) = []"
| "requests_efield ENone = []"

fun requests_s :: "snode \<Rightarrow> request list"
  and requests_ss :: "snode list \<Rightarrow> request list"
  and requests_sfields :: "(string \<times> sfield) list \<Rightarrow> request list"
  and requests_sfield :: "sfield \<Rightarrow> request list"
where
  "requests_s (FunctionDef p name args body decorator_list returns tc) =
     requests_e args @ requests_ss body @ requests_es decorator_list @ requests_eo returns"
| "requests_s (ClassDef p name bases keywords body decorator_list) =
     requests_es bases @ requests_es keywords @ requests_ss body @ requests_es decorator_list"
| "requests_s (If p test body orelse) = requests_e test @ requests_ss body @ requests_ss orelse"
| "requests_s (For p target iter body orelse tc) =
     requests_e target @ requests_e iter @ requests_ss body @ requests_ss orelse"
| "requests_s (While p test body orelse) =
     requests_e test @ requests_ss body @ requests_ss orelse"
| "requests_s (With p items body tc) = requests_es items @ requests_ss body"
| "requests_s (Try p body handlers orelse finalbody) =
     requests_ss body @ requests_ss handlers @ requests_ss orelse @ requests_ss finalbody"
| "requests_s (ExceptHandler p type name body) = requests_eo type @ requests_ss body"
| "requests_s (Module body type_ignores) = requests_ss body @ requests_es type_ignores"
| "requests_s (SNode cls p fs) = requests_sfields fs"
| "requests_ss [] = []"
| "requests_ss (s # ss) = requests_s s @ requests_ss ss"
| "requests_sfields [] = []"
| "requests_sfields ((n, f) # fs) = requests_sfield f @ requests_sfields fs"
| "requests_sfield (SExpr e) = requests_e e"
| "requests_sfield (SExprs es) = requests_es es"
| "requests_sfield (SOpts es) = requests_eos es"
| "requests_sfield (SStmts ss) = requests_ss ss"
| "requests_sfield (SVal v) = []"
| "requests_sfield (SVals vs) = []"
| "requests_sfield SNone = []"

text \<open>The state of the canonicalizer after a request.\<close>

fun serve :: "canon \<Rightarrow> request \<Rightarrow> canon" where
  "serve c (ReqName n) = snd (map_name c n)"
| "serve c (ReqAttr a) = snd (map_attr c a)"
| "serve c (ReqConst v) = snd (map_const c v)"

text \<open>The keys of \<open>name_map\<close> and of \<open>const_map\<close> that a list of requests looks up.\<close>

fun name_keys :: "request list \<Rightarrow> string list" where
  "name_keys [] = []"
| "name_keys (ReqName n # rs) = n # name_keys rs"
| "name_keys (ReqAttr a # rs) = (''attr::'' @ a) # name_keys rs"
| "name_keys (ReqConst v # rs) = name_keys rs"

fun const_keys :: "request list \<Rightarrow> string list" where
  "const_keys [] = []"
| "const_keys (ReqConst v # rs) = py_repr v # const_keys rs"
| "const_keys (r # rs) = const_keys rs"

text \<open>The number of distinct keys that come before the first occurrence of \<open>k\<close>.\<close>

definition rank :: "'a \<Rightarrow> 'a list \<Rightarrow> nat" where
  "rank k ks = card (set (takeWhile (\<lambda>x. x \<noteq> k) ks))"

text \<open>The tree that a pass returns, as a substitution by the maps of the pass: every name,
  attribute name and constant is replaced by its entry; a key without entry is kept.\<close>

definition lookup :: "(string \<rightharpoonup> string) \<Rightarrow> string \<Rightarrow> string" where
  "lookup m k = (case m k of Some p \<Rightarrow> p | None \<Rightarrow> k)"

fun subst_e :: "canon \<Rightarrow> enode \<Rightarrow> enode"
  and subst_es :: "canon \<Rightarrow> enode list \<Rightarrow> enode list"
  and subst_eo :: "canon \<Rightarrow> enode option \<Rightarrow> enode option"
  and subst_eos :: "canon \<Rightarrow> enode option list \<Rightarrow> enode option list"
  and subst_efields :: "canon \<Rightarrow> (string \<times> efield) list \<Rightarrow> (string \<times> efield) list"
  and subst_efield :: "canon \<Rightarrow> efield \<Rightarrow> efield"
where
  "subst_e c (Name n ctx) = Name (lookup (name_map c) n) ctx"
| "subst_e c (Arg a ann tc) = Arg (lookup (name_map c) a) None None"
| "subst_e c (Attribute v a ctx) =
     Attribute (subst_e c v) (lookup (name_map c) (''attr::'' @ a)) (subst_e c ctx)"
| "subst_e c (Constant v k) = Constant (CStr (lookup (const_map c) (py_repr v))) None"
| "subst_e c (ENode cls fs) = ENode cls (subst_efields c fs)"
| "subst_es c [] = []"
| "subst_es c (e # es) = subst_e c e # subst_es c es"
| "subst_eo c None = None"
| "subst_eo c (Some e) = Some (subst_e c e)"
| "subst_eos c [] = []"
| "subst_eos c (e # es) = subst_eo c e # subst_eos c es"
| "subst_efields c [] = []"
| "subst_efields c ((n, f) # fs) = (n, subst_efield c f) # subst_efields c fs"
| "subst_efield c (EExpr e) = EExpr (subst_e c e)"
| "subst_efield c (EExprs es) = EExprs (subst_es c es)"
| "subst_efield c (EOpts es) = EOpts (subst_eos c es)"
| "subst_efield c (EVal v) = EVal v"
| "subst_efield c (EVals vs) = EVals vs"
| "subst_efield c ENone = ENone"

fun subst_s :: "canon \<Rightarrow> snode \<Rightarrow> snode"
  and subst_ss :: "canon \<Rightarrow> snode list \<Rightarrow> snode list"
  and subst_sfields :: "canon \<Rightarrow> (string \<times> sfield) list \<Rightarrow> (string \<times> sfield) list"
  and subst_sfield :: "canon \<Rightarrow> sfield \<Rightarrow> sfield"
where
  "subst_s c (FunctionDef p name args body decorator_list returns tc) =
     FunctionDef p ''_fn'' (subst_e c args) (subst_ss c body) [] None tc"
| "subst_s c (ClassDef p name bases keywords body decorator_list) =
     ClassDef p ''_cls'' [] (subst_es c keywords) (subst_ss c body) []"
| "subst_s c (If p test body orelse) =
     If p (subst_e c test) (subst_ss c body) (subst_ss c orelse)"
| "subst_s c (For p target iter body orelse tc) =
     For p (subst_e c target) (subst_e c iter) (subst_ss c body) (subst_ss c orelse) tc"
| "subst_s c (While p test body orelse) =
     While p (subst_e c test) (subst_ss c body) (subst_ss c orelse)"
| "subst_s c (With p items body tc) = With p (subst_es c items) (subst_ss c body) tc"
| "subst_s c (Try p body handlers orelse finalbody) =
     Try p (subst_ss c body) (subst_ss c handlers) (subst_ss c orelse) (subst_ss c finalbody)"
| "subst_s c (ExceptHandler p type name body) =
     ExceptHandler p (subst_eo c type) name (subst_ss c body)"
| "subst_s c (Module body type_ignores) = Module (subst_ss c body) (subst_es c type_ignores)"
| "subst_s c (SNode cls p fs) = SNode cls p (subst_sfields c fs)"
| "subst_ss c [] = []"
| "subst_ss c (s # ss) = subst_s c s # subst_ss c ss"
| "subst_sfields c [] = []"
| "subst_sfields c ((n, f) # fs) = (n, subst_sfield c f) # subst_sfields c fs"
| "subst_sfield c (SExpr e) = SExpr (subst_e c e)"
| "subst_sfield c (SExprs es) = SExprs (subst_es c es)"
| "subst_sfield c (SOpts es) = SOpts (subst_eos c es)"
| "subst_sfield c (SStmts ss) = SStmts (subst_ss c ss)"
| "subst_sfield c (SVal v) = SVal v"
| "subst_sfield c (SVals vs) = SVals vs"
| "subst_sfield c SNone = SNone"

subsection \<open>Renamings\<close>

text \<open>
  A consistent renaming: \<open>f\<close> renames the identifiers of \<open>Name\<close> and \<open>arg\<close> nodes,
  \<open>g\<close> the attribute names of \<open>Attribute\<close> nodes and \<open>h\<close> the values of \<open>Constant\<close>
  nodes, all over the tree. Everything else stays: the context of a name, function and
  class names, and the identifiers that other nodes keep as plain strings.
\<close>

fun rename_e :: "(string \<Rightarrow> string) \<Rightarrow> (string \<Rightarrow> string) \<Rightarrow> (const_value \<Rightarrow> const_value) \<Rightarrow> enode \<Rightarrow> enode"
  and rename_es :: "(string \<Rightarrow> string) \<Rightarrow> (string \<Rightarrow> string) \<Rightarrow> (const_value \<Rightarrow> const_value) \<Rightarrow> enode list \<Rightarrow> enode list"
  and rename_eo :: "(string \<Rightarrow> string) \<Rightarrow> (string \<Rightarrow> string) \<Rightarrow> (const_value \<Rightarrow> const_value) \<Rightarrow> enode option \<Rightarrow> enode option"
  and rename_eos :: "(string \<Rightarrow> string) \<Rightarrow> (string \<Rightarrow> string) \<Rightarrow> (const_value \<Rightarrow> const_value) \<Rightarrow> enode option list \<Rightarrow> enode option list"
  and rename_efields :: "(string \<Rightarrow> string) \<Rightarrow> (string \<Rightarrow> string) \<Rightarrow> (const_value \<Rightarrow> const_value) \<Rightarrow> (string \<times> efield) list \<Rightarrow> (string \<times> efield) list"
  and rename_efield :: "(string \<Rightarrow> string) \<Rightarrow> (string \<Rightarrow> string) \<Rightarrow> (const_value \<Rightarrow> const_value) \<Rightarrow> efield \<Rightarrow> efield"
where
  "rename_e f g h (Name n ctx) = Name (f n) ctx"
| "rename_e f g h (Arg a ann tc) = Arg (f a) (rename_eo f g h ann) tc"
| "rename_e f g h (Attribute v a ctx) = Attribute (rename_e f g h v) (g a) (rename_e f g h ctx)"
| "rename_e f g h (Constant v k) = Constant (h v) k"
| "rename_e f g h (ENode cls fs) = ENode cls (rename_efields f g h fs)"
| "rename_es f g h [] = []"
| "rename_es f g h (e # es) = rename_e f g h e # rename_es f g h es"
| "rename_eo f g h None = None"
| "rename_eo f g h (Some e) = Some (rename_e f g h e)"
| "rename_eos f g h [] = []"
| "rename_eos f g h (e # es) = rename_eo f g h e # rename_eos f g h es"
| "rename_efields f g h [] = []"
| "rename_efields f g h ((n, fl) # fs) = (n, rename_efield f g h fl) # rename_efields f g h fs"
| "rename_efield f g h (EExpr e) = EExpr (rename_e f g h e)"
| "rename_efield f g h (EExprs es) = EExprs (rename_es f g h es)"
| "rename_efield f g h (EOpts es) = EOpts (rename_eos f g h es)"
| "rename_efield f g h (EVal v) = EVal v"
| "rename_efield f g h (EVals vs) = EVals vs"
| "rename_efield f g h ENone = ENone"

fun rename_s :: "(string \<Rightarrow> string) \<Rightarrow> (string \<Rightarrow> string) \<Rightarrow> (const_value \<Rightarrow> const_value) \<Rightarrow> snode \<Rightarrow> snode"
  and rename_ss :: "(string \<Rightarrow> string) \<Rightarrow> (string \<Rightarrow> string) \<Rightarrow> (const_value \<Rightarrow> const_value) \<Rightarrow> snode list \<Rightarrow> snode list"
  and rename_sfields :: "(string \<Rightarrow> string) \<Rightarrow> (string \<Rightarrow> string) \<Rightarrow> (const_value \<Rightarrow> const_value) \<Rightarrow> (string \<times> sfield) list \<Rightarrow> (string \<times> sfield) list"
  and rename_sfield :: "(string \<Rightarrow> string) \<Rightarrow> (string \<Rightarrow> string) \<Rightarrow> (const_value \<Rightarrow> const_value) \<Rightarrow> sfield \<Rightarrow> sfield"
where
  "rename_s f g h (FunctionDef p name args body decorator_list returns tc) =
     FunctionDef p name (rename_e f g h args) (rename_ss f g h body)
       (rename_es f g h decorator_list) (rename_eo f g h returns) tc"
| "rename_s f g h (ClassDef p name bases kwds body decorator_list) =
     ClassDef p name (rename_es f g h bases) (rename_es f g h kwds) (rename_ss f g h body)
       (rename_es f g h decorator_list)"
| "rename_s f g h (If p test body orelse) =
     If p (rename_e f g h test) (rename_ss f g h body) (rename_ss f g h orelse)"
| "rename_s f g h (For p target iter body orelse tc) =
     For p (rename_e f g h target) (rename_e f g h iter) (rename_ss f g h body)
       (rename_ss f g h orelse) tc"
| "rename_s f g h (While p test body orelse) =
     While p (rename_e f g h test) (rename_ss f g h body) (rename_ss f g h orelse)"
| "rename_s f g h (With p items body tc) =
     With p (rename_es f g h items) (rename_ss f g h body) tc"
| "rename_s f g h (Try p body handlers orelse finalbody) =
     Try p (rename_ss f g h body) (rename_ss f g h handlers) (rename_ss f g h orelse)
       (rename_ss f g h finalbody)"
| "rename_s f g h (ExceptHandler p type name body) =
     ExceptHandler p (rename_eo f g h type) name (rename_ss f g h body)"
| "rename_s f g h (Module body type_ignores) =
     Module (rename_ss f g h body) (rename_es f g h type_ignores)"
| "rename_s f g h (SNode cls p fs) = SNode cls p (rename_sfields f g h fs)"
| "rename_ss f g h [] = []"
| "rename_ss f g h (s # ss) = rename_s f g h s # rename_ss f g h ss"
| "rename_sfields f g h [] = []"
| "rename_sfields f g h ((n, fl) # fs) = (n, rename_sfield f g h fl) # rename_sfields f g h fs"
| "rename_sfield f g h (SExpr e) = SExpr (rename_e f g h e)"
| "rename_sfield f g h (SExprs es) = SExprs (rename_es f g h es)"
| "rename_sfield f g h (SOpts es) = SOpts (rename_eos f g h es)"
| "rename_sfield f g h (SStmts ss) = SStmts (rename_ss f g h ss)"
| "rename_sfield f g h (SVal v) = SVal v"
| "rename_sfield f g h (SVals vs) = SVals vs"
| "rename_sfield f g h SNone = SNone"

fun rename_req ::
  "(string \<Rightarrow> string) \<Rightarrow> (string \<Rightarrow> string) \<Rightarrow> (const_value \<Rightarrow> const_value) \<Rightarrow> request \<Rightarrow> request" where
  "rename_req f g h (ReqName n) = ReqName (f n)"
| "rename_req f g h (ReqAttr a) = ReqAttr (g a)"
| "rename_req f g h (ReqConst v) = ReqConst (h v)"

text \<open>The renaming of the keys of \<open>name_map\<close> that goes with a renaming.\<close>

definition rename_key :: "(string \<Rightarrow> string) \<Rightarrow> (string \<Rightarrow> string) \<Rightarrow> string \<Rightarrow> string" where
  "rename_key f g k = (if startswith k ''attr::'' then ''attr::'' @ g (drop 6 k) else f k)"

fun const_vals :: "request list \<Rightarrow> const_value list" where
  "const_vals [] = []"
| "const_vals (ReqConst v # rs) = v # const_vals rs"
| "const_vals (r # rs) = const_vals rs"

text \<open>Two states agree on a request when the placeholder of the renamed key in the second
  is the placeholder of the key in the first.\<close>

fun agrees :: "canon \<Rightarrow> canon \<Rightarrow> (string \<Rightarrow> string) \<Rightarrow> (string \<Rightarrow> string) \<Rightarrow> (const_value \<Rightarrow> const_value) \<Rightarrow> request \<Rightarrow> bool" where
  "agrees c1 c2 f g h (ReqName n) = (lookup (name_map c2) (f n) = lookup (name_map c1) n)"
| "agrees c1 c2 f g h (ReqAttr a) =
     (lookup (name_map c2) (''attr::'' @ g a) = lookup (name_map c1) (''attr::'' @ a))"
| "agrees c1 c2 f g h (ReqConst v) =
     (lookup (const_map c2) (py_repr (h v)) = lookup (const_map c1) (py_repr v))"

subsection \<open>Statement skeleton\<close>



text \<open>The tree types are countable, so there are injective dumps; \<open>numbered_dump\<close> is
  one.\<close>

instance const_value :: countable
  by countable_datatype

instance enode and efield :: countable
  by countable_datatype

instance snode and sfield :: countable
  by countable_datatype


subsection \<open>The windows that are expected\<close>

text \<open>
  A tree with its line numbers, as the parser builds it: every node of a class with location
  attributes has \<open>lineno\<close> and \<open>end_lineno\<close>, the statements of the bodies of the classes
  above are such nodes, and the handlers of a \<open>try\<close> statement are \<open>ExceptHandler\<close> nodes.
\<close>

definition has_lines :: "position \<Rightarrow> bool" where
  "has_lines p = (fst p \<noteq> None \<and> snd p \<noteq> None)"

definition lined :: "snode \<Rightarrow> bool" where
  "lined s = (lineno_of s \<noteq> None \<and> end_lineno_of s \<noteq> None)"

fun is_handler :: "snode \<Rightarrow> bool" where
  "is_handler (ExceptHandler p type name body) = True"
| "is_handler other = False"

fun positioned_s :: "snode \<Rightarrow> bool"
  and positioned_ss :: "snode list \<Rightarrow> bool"
  and positioned_sfields :: "(string \<times> sfield) list \<Rightarrow> bool"
  and positioned_sfield :: "sfield \<Rightarrow> bool"
where
  "positioned_s (FunctionDef p name args body decorator_list returns tc) =
     (has_lines p \<and> list_all lined body \<and> positioned_ss body)"
| "positioned_s (ClassDef p name bases kwds body decorator_list) =
     (has_lines p \<and> list_all lined body \<and> positioned_ss body)"
| "positioned_s (If p test body orelse) =
     (has_lines p \<and> list_all lined body \<and> positioned_ss body \<and>
      list_all lined orelse \<and> positioned_ss orelse)"
| "positioned_s (For p target iter body orelse tc) =
     (has_lines p \<and> list_all lined body \<and> positioned_ss body \<and>
      list_all lined orelse \<and> positioned_ss orelse)"
| "positioned_s (While p test body orelse) =
     (has_lines p \<and> list_all lined body \<and> positioned_ss body \<and>
      list_all lined orelse \<and> positioned_ss orelse)"
| "positioned_s (With p items body tc) =
     (has_lines p \<and> list_all lined body \<and> positioned_ss body)"
| "positioned_s (Try p body handlers orelse finalbody) =
     (has_lines p \<and> list_all lined body \<and> positioned_ss body \<and>
      list_all is_handler handlers \<and> positioned_ss handlers \<and>
      list_all lined orelse \<and> positioned_ss orelse \<and>
      list_all lined finalbody \<and> positioned_ss finalbody)"
| "positioned_s (ExceptHandler p type name body) =
     (has_lines p \<and> list_all lined body \<and> positioned_ss body)"
| "positioned_s (Module body type_ignores) = (list_all lined body \<and> positioned_ss body)"
| "positioned_s (SNode cls None fs) = positioned_sfields fs"
| "positioned_s (SNode cls (Some p) fs) = (has_lines p \<and> positioned_sfields fs)"
| "positioned_ss [] = True"
| "positioned_ss (s # ss) = (positioned_s s \<and> positioned_ss ss)"
| "positioned_sfields [] = True"
| "positioned_sfields ((n, f) # fs) = (positioned_sfield f \<and> positioned_sfields fs)"
| "positioned_sfield (SStmts ss) = positioned_ss ss"
| "positioned_sfield (SExpr e) = True"
| "positioned_sfield (SExprs es) = True"
| "positioned_sfield (SOpts es) = True"
| "positioned_sfield (SVal v) = True"
| "positioned_sfield (SVals vs) = True"
| "positioned_sfield SNone = True"

text \<open>
  The line ranges of the windows of a block: for every length from \<open>max_len\<close> down to
  \<open>min_len\<close> that the block reaches, and every offset from the left, the line of the first
  statement of the window and the last line of its last statement.
\<close>

definition start_line :: "snode \<Rightarrow> int" where
  "start_line s = (case lineno_of s of Some l \<Rightarrow> l | None \<Rightarrow> 0)"

definition end_line :: "snode \<Rightarrow> int" where
  "end_line s = (case end_lineno_of s of Some e \<Rightarrow> e | None \<Rightarrow> start_line s)"

definition windows_at :: "nat \<Rightarrow> snode list \<Rightarrow> nat list \<Rightarrow> line_range list" where
  "windows_at len stmts offsets =
     map (\<lambda>i. (start_line (stmts ! i), end_line (stmts ! (i + len - 1)))) offsets"

definition windows_of_lengths :: "snode list \<Rightarrow> nat list \<Rightarrow> line_range list" where
  "windows_of_lengths stmts lens =
     concat (map (\<lambda>len. if length stmts < len then []
                         else windows_at len stmts [0..<length stmts - len + 1]) lens)"

definition windows_of :: "nat \<Rightarrow> nat \<Rightarrow> snode list \<Rightarrow> line_range list" where
  "windows_of min_len max_len stmts = windows_of_lengths stmts (rev [min_len..<max_len + 1])"

text \<open>
  The windows that the extractor is expected to emit for a tree, in order: the windows of the
  body of a module, of a function definition and of a \<open>with\<close> statement, of the body and
  the \<open>else\<close> block of an \<open>if\<close>, \<open>for\<close> or \<open>while\<close> statement, and of the body, the
  \<open>else\<close> block, the \<open>finally\<close> block and the handler bodies of a \<open>try\<close> statement,
  followed by what is expected for the statements below the node. A node of any other
  class (an \<open>async def\<close>, a class definition, a \<open>match\<close> statement) adds no window of its
  own: only the statements below it are looked at.
\<close>

fun expected_s :: "nat \<Rightarrow> nat \<Rightarrow> snode \<Rightarrow> line_range list"
  and expected_ss :: "nat \<Rightarrow> nat \<Rightarrow> snode list \<Rightarrow> line_range list"
  and expected_sfields :: "nat \<Rightarrow> nat \<Rightarrow> (string \<times> sfield) list \<Rightarrow> line_range list"
  and expected_sfield :: "nat \<Rightarrow> nat \<Rightarrow> sfield \<Rightarrow> line_range list"
where
  "expected_s mn mx (Module body type_ignores) = windows_of mn mx body @ expected_ss mn mx body"
| "expected_s mn mx (FunctionDef p name args body decorator_list returns tc) =
     windows_of mn mx body @ expected_ss mn mx body"
| "expected_s mn mx (With p items body tc) = windows_of mn mx body @ expected_ss mn mx body"
| "expected_s mn mx (If p test body orelse) =
     windows_of mn mx body @ windows_of mn mx orelse @
     expected_ss mn mx body @ expected_ss mn mx orelse"
| "expected_s mn mx (For p target iter body orelse tc) =
     windows_of mn mx body @ windows_of mn mx orelse @
     expected_ss mn mx body @ expected_ss mn mx orelse"
| "expected_s mn mx (While p test body orelse) =
     windows_of mn mx body @ windows_of mn mx orelse @
     expected_ss mn mx body @ expected_ss mn mx orelse"
| "expected_s mn mx (Try p body handlers orelse finalbody) =
     windows_of mn mx body @ windows_of mn mx orelse @ windows_of mn mx finalbody @
     concat (map (\<lambda>h. windows_of mn mx (children_s h)) handlers) @
     expected_ss mn mx body @ expected_ss mn mx handlers @
     expected_ss mn mx orelse @ expected_ss mn mx finalbody"
| "expected_s mn mx (ClassDef p name bases kwds body decorator_list) = expected_ss mn mx body"
| "expected_s mn mx (ExceptHandler p type name body) = expected_ss mn mx body"
| "expected_s mn mx (SNode cls p fs) = expected_sfields mn mx fs"
| "expected_ss mn mx [] = []"
| "expected_ss mn mx (s # ss) = expected_s mn mx s @ expected_ss mn mx ss"
| "expected_sfields mn mx [] = []"
| "expected_sfields mn mx ((n, f) # fs) = expected_sfield mn mx f @ expected_sfields mn mx fs"
| "expected_sfield mn mx (SStmts ss) = expected_ss mn mx ss"
| "expected_sfield mn mx (SExpr e) = []"
| "expected_sfield mn mx (SExprs es) = []"
| "expected_sfield mn mx (SOpts es) = []"
| "expected_sfield mn mx (SVal v) = []"
| "expected_sfield mn mx (SVals vs) = []"
| "expected_sfield mn mx SNone = []"

definition entry_range :: "entry \<Rightarrow> line_range" where
  "entry_range x = (fst (snd x), fst (snd (snd x)))"

text \<open>Two states of a statement with the same lines and the same expected windows.\<close>

definition same_frame :: "nat \<Rightarrow> nat \<Rightarrow> snode \<Rightarrow> snode \<Rightarrow> bool" where
  "same_frame mn mx s s' =
     (positioned_s s \<and> positioned_s s' \<and> position_of s' = position_of s \<and>
      map position_of (children_s s') = map position_of (children_s s) \<and>
      is_handler s' = is_handler s \<and>
      expected_s mn mx s' = expected_s mn mx s)"

subsection \<open>Auxiliary notions for the proofs about \<open>repr\<close>\<close>

definition is_digit :: "char \<Rightarrow> bool" where
  "is_digit ch = (ch \<in> set ''0123456789'')"

definition hex_val :: "char \<Rightarrow> nat" where
  "hex_val ch = (if is_digit ch then of_char ch - 48 else of_char ch - 87)"

text \<open>Reading back the first character of an escaped string.\<close>

fun unescape :: "string \<Rightarrow> (char \<times> string) option" where
  "unescape [] = None"
| "unescape (c # rest) =
     (if c \<noteq> CHR 0x5C then Some (c, rest)
      else case rest of
        [] \<Rightarrow> None
      | d # rest' \<Rightarrow>
          if d = CHR ''t'' then Some (CHR 0x09, rest')
          else if d = CHR ''n'' then Some (CHR 0x0A, rest')
          else if d = CHR ''r'' then Some (CHR 0x0D, rest')
          else if d = CHR ''x'' then
            (case rest' of
               h1 # h2 # r \<Rightarrow> Some (char_of (16 * hex_val h1 + hex_val h2), r)
             | _ \<Rightarrow> None)
          else Some (d, rest'))"

definition head_class :: "char \<Rightarrow> nat" where
  "head_class ch =
     (if ch = CHR ''N'' then 0
      else if ch = CHR ''T'' \<or> ch = CHR ''F'' then 1
      else if is_digit ch \<or> ch = CHR ''-'' then 2
      else if ch = CHR 0x27 \<or> ch = CHR 0x22 then 3
      else 4)"

subsection \<open>Example trees\<close>

text \<open>The contexts \<open>Load()\<close> and \<open>Store()\<close>, an assignment on one line, a \<open>pass\<close>
  statement with or without its line number, an empty argument list, and an
  \<open>AsyncFunctionDef\<close> node with its fields.\<close>

definition Load :: enode where "Load = ENode ''Load'' []"
definition Store :: enode where "Store = ENode ''Store'' []"

definition assign :: "int \<Rightarrow> enode \<Rightarrow> enode \<Rightarrow> snode" where
  "assign ln target v =
     SNode ''Assign'' (Some (Some ln, Some ln))
       [(''targets'', SExprs [target]), (''value'', SExpr v), (''type_comment'', SNone)]"

definition pass_stmt :: "int option \<Rightarrow> snode" where
  "pass_stmt ln = SNode ''Pass'' (Some (ln, ln)) []"

definition no_args :: enode where
  "no_args = ENode ''arguments''
     [(''posonlyargs'', EExprs []), (''args'', EExprs []), (''vararg'', ENone),
      (''kwonlyargs'', EExprs []), (''kw_defaults'', EOpts []), (''kwarg'', ENone),
      (''defaults'', EExprs [])]"

definition AsyncFunctionDef ::
  "position \<Rightarrow> string \<Rightarrow> enode \<Rightarrow> snode list \<Rightarrow> enode list \<Rightarrow> enode option \<Rightarrow> string option
   \<Rightarrow> snode" where
  "AsyncFunctionDef p name args body decorator_list returns tc =
     SNode ''AsyncFunctionDef'' (Some p)
       [(''name'', SVal (CStr name)), (''args'', SExpr args), (''body'', SStmts body),
        (''decorator_list'', SExprs decorator_list),
        (''returns'', case returns of None \<Rightarrow> SNone | Some r \<Rightarrow> SExpr r),
        (''type_comment'', case tc of None \<Rightarrow> SNone | Some t \<Rightarrow> SVal (CStr t))]"

text \<open>The statement \<open>x.foo = 1\<close> and the statements \<open>a = 1; b = True; c = 1\<close>.\<close>

definition stmt_x_foo :: snode where
  "stmt_x_foo = assign 1 (Attribute (Name ''x'' Load) ''foo'' Store) (Constant (CInt 1) None)"

definition stmts_abc :: "snode list" where
  "stmts_abc =
     [assign 1 (Name ''a'' Store) (Constant (CInt 1) None),
      assign 2 (Name ''b'' Store) (Constant (CBool True) None),
      assign 3 (Name ''c'' Store) (Constant (CInt 1) None)]"

text \<open>
  A module of an \<open>async def\<close> (lines 1 to 21) and a \<open>def\<close> (lines 22 to 24). The body of
  the \<open>async def\<close> has two \<open>pass\<close> statements, then a \<open>for\<close>, a \<open>while\<close> and a
  \<open>with\<close> statement and a \<open>try\<close> statement with one handler and a \<open>finally\<close> block;
  every block below these, and the body of the \<open>def\<close>, has two \<open>pass\<close> statements.
\<close>

definition async_module :: snode where
  "async_module =
     Module
       [AsyncFunctionDef (Some 1, Some 21) ''f'' no_args
          [pass_stmt (Some 2), pass_stmt (Some 3),
           For (Some 4, Some 6) (Name ''x'' Store) (Name ''y'' Load)
             [pass_stmt (Some 5), pass_stmt (Some 6)] [] None,
           While (Some 7, Some 9) (Name ''x'' Load) [pass_stmt (Some 8), pass_stmt (Some 9)] [],
           With (Some 10, Some 12)
             [ENode ''withitem''
                [(''context_expr'', EExpr (Name ''x'' Load)), (''optional_vars'', ENone)]]
             [pass_stmt (Some 11), pass_stmt (Some 12)] None,
           Try (Some 13, Some 21) [pass_stmt (Some 14), pass_stmt (Some 15)]
             [ExceptHandler (Some 16, Some 18) (Some (Name ''E'' Load)) None
                [pass_stmt (Some 17), pass_stmt (Some 18)]]
             [] [pass_stmt (Some 20), pass_stmt (Some 21)]]
          [] None None,
        FunctionDef (Some 22, Some 24) ''g'' no_args
          [pass_stmt (Some 23), pass_stmt (Some 24)] [] None None] []"

text \<open>A renaming of constants that moves every integer and every string, and the block
  \<open>try: pass\<close> / \<open>except E as e: e\<close> for a handler name \<open>e\<close>.\<close>

definition bump :: "const_value \<Rightarrow> const_value" where
  "bump v = (case v of CInt i \<Rightarrow> CInt (i + 1) | CStr s \<Rightarrow> CStr (CHR ''s'' # s) | other \<Rightarrow> other)"

definition try_except :: "string \<Rightarrow> snode list" where
  "try_except e =
     [Try (Some 1, Some 4) [pass_stmt (Some 2)]
        [ExceptHandler (Some 3, Some 4) (Some (Name ''E'' Load)) (Some e)
           [SNode ''Expr'' (Some (Some 4, Some 4)) [(''value'', SExpr (Name e Load))]]]
        [] []]"

text \<open>
  A function without parameters, the statements \<open>a = 1; b = a; c = b\<close> on three lines from
  line \<open>l\<close> on, and two modules: three functions with these three statements as their body,
  and the same module with \<open>d = c; e = d\<close> added at the end of the third function.
\<close>

definition function_def :: "int \<Rightarrow> int \<Rightarrow> string \<Rightarrow> snode list \<Rightarrow> snode" where
  "function_def l e name body = FunctionDef (Some l, Some e) name no_args body [] None None"

definition three_assigns :: "int \<Rightarrow> snode list" where
  "three_assigns l =
     [assign l (Name ''a'' Store) (Constant (CInt 1) None),
      assign (l + 1) (Name ''b'' Store) (Name ''a'' Load),
      assign (l + 2) (Name ''c'' Store) (Name ''b'' Load)]"

definition three_clones :: snode where
  "three_clones =
     Module
       [function_def 1 4 ''f1'' (three_assigns 2),
        function_def 6 9 ''f2'' (three_assigns 7),
        function_def 11 14 ''f3'' (three_assigns 12)] []"

definition clone_in_longer_function :: snode where
  "clone_in_longer_function =
     Module
       [function_def 1 4 ''f1'' (three_assigns 2),
        function_def 6 9 ''f2'' (three_assigns 7),
        function_def 11 16 ''f3''
          (three_assigns 12 @
           [assign 15 (Name ''d'' Store) (Name ''c'' Load),
            assign 16 (Name ''e'' Store) (Name ''d'' Load)])] []"

section \<open>Properties\<close>

subsection \<open>The line-range test\<close>

lemma trivial_scan_iff:
  "trivial_scan ms \<longleftrightarrow>
     (\<exists>(s, e) \<in> set ms. e - s = 1) \<or>
     (\<exists>(prev, nxt) \<in> set (zip ms (tl ms)). fst prev \<le> fst nxt \<and> fst nxt \<le> snd prev)"
proof (induction ms)
  case Nil
  show ?case by simp
next
  case (Cons m rest)
  obtain s e where m: "m = (s, e)" by (cases m)
  show ?case
  proof (cases rest)
    case Nil
    with m show ?thesis by simp
  next
    case (Cons nxt rest')
    have "trivial_scan (m # rest) \<longleftrightarrow>
            e - s = 1 \<or> (s \<le> fst nxt \<and> fst nxt \<le> e) \<or> trivial_scan rest"
      unfolding m Cons
      by (auto simp del: trivial_scan.simps simp add: trivial_scan.simps(2) [of s e])
    with Cons.IH show ?thesis unfolding m Cons by auto
  qed
qed

text \<open>
  C5 (as the code has it). For a group of at least two occurrences, sorted by start line and
  then by end line, the line-range test rejects exactly when some occurrence has
  \<open>end - start = 1\<close> (it spans two lines, as \<open>(36, 37)\<close> does) or the start line of an
  occurrence lies in the inclusive line range of the occurrence just before it. A group of
  fewer than two occurrences is never rejected by this test.
\<close>

theorem C5_line_range_test:
  "is_trivial_by_line_ranges matches \<longleftrightarrow>
     2 \<le> length matches \<and>
     ((\<exists>(s, e) \<in> set matches. e - s = 1) \<or>
      (\<exists>(prev, nxt) \<in> set (zip (sort matches) (tl (sort matches))).
          fst prev \<le> fst nxt \<and> fst nxt \<le> snd prev))"
  unfolding is_trivial_by_line_ranges_def trivial_scan_iff by auto

text \<open>The third example of the docstring of \<open>_is_trivial_by_line_ranges\<close>, through the
  characterisation.\<close>

theorem C5_line_range_test_witness:
  "is_trivial_by_line_ranges [(36, 37), (38, 39), (40, 41)]"
  using C5_line_range_test [of "[(36, 37), (38, 39), (40, 41)]"] by simp

text \<open>Three consecutive one-line blocks are not rejected by the line-range test: no
  occurrence has \<open>end - start = 1\<close> and no start line lies in the range before it.\<close>

theorem C5_one_line_blocks_counterexample:
  "\<not> is_trivial_by_line_ranges [(10, 10), (11, 11), (12, 12)]"
  by (simp add: is_trivial_by_line_ranges_def)

subsection \<open>The greedy selection\<close>

lemma overlaps_iff:
  "range_overlaps_with_occupied occd s e \<longleftrightarrow> lines_of (s, e) \<inter> occd \<noteq> {}"
  by (auto simp: range_overlaps_with_occupied_def lines_of_def)

lemma occupy_eq: "occupy occd occs = occd \<union> (\<Union>r\<in>set occs. lines_of r)"
  unfolding occupy_def by (induction occs arbitrary: occd) (auto simp: lines_of_def)

lemma sorted_fst: "sorted (xs :: line_range list) \<Longrightarrow> sorted (map fst xs)"
  by (induction xs) (auto simp: less_eq_prod_def)

lemma scan_disjoint:
  "sorted (map fst ms) \<Longrightarrow> \<not> trivial_scan ms \<Longrightarrow> sorted_wrt disjoint_ranges ms"
proof (induction ms)
  case Nil
  show ?case by simp
next
  case (Cons m rest)
  obtain s e where m: "m = (s, e)" by (cases m)
  show ?case
  proof (cases rest)
    case Nil
    then show ?thesis by simp
  next
    case (Cons nxt rest')
    from Cons.prems(2) have nt: "\<not> (s \<le> fst nxt \<and> fst nxt \<le> e)" and rest: "\<not> trivial_scan rest"
      unfolding m Cons
      by (auto simp del: trivial_scan.simps simp add: trivial_scan.simps(2) [of s e] split: if_splits)
    from Cons.prems(1) have le: "\<forall>y\<in>set rest. s \<le> fst y" and srt: "sorted (map fst rest)"
      unfolding m by auto
    from Cons.prems(1) have le2: "\<forall>y\<in>set rest. fst nxt \<le> fst y"
      unfolding m Cons by auto
    have "\<forall>y\<in>set rest. disjoint_ranges m y"
    proof
      fix y assume y: "y \<in> set rest"
      with le le2 nt have "e < fst y" unfolding Cons by fastforce
      then show "disjoint_ranges m y"
        unfolding m disjoint_ranges_def lines_of_def by auto
    qed
    with Cons.IH [OF srt rest] show ?thesis by simp
  qed
qed

lemma sorted_wrt_sym_pair:
  "sorted_wrt P xs \<Longrightarrow> (\<And>a b. P a b \<Longrightarrow> P b a) \<Longrightarrow> x \<in> set xs \<Longrightarrow> y \<in> set xs \<Longrightarrow> x \<noteq> y
   \<Longrightarrow> P x y"
  by (induction xs) auto

lemma not_trivial_apart:
  assumes "\<not> is_trivial_by_line_ranges rs" and "2 \<le> length rs"
  shows "apart (set rs)"
proof -
  from assms have "\<not> trivial_scan (sort rs)"
    by (simp add: is_trivial_by_line_ranges_def)
  moreover have "sorted (map fst (sort rs))" by (rule sorted_fst) simp
  ultimately have sw: "sorted_wrt disjoint_ranges (sort rs)" by (rule scan_disjoint [rotated])
  show ?thesis
    unfolding apart_def
  proof (intro ballI impI)
    fix x y assume "x \<in> set rs" "y \<in> set rs" "x \<noteq> y"
    then show "disjoint_ranges x y"
      using sorted_wrt_sym_pair [OF sw, of x y] by (auto simp: disjoint_ranges_def)
  qed
qed

lemma distinct_apart_sorted_wrt:
  "distinct xs \<Longrightarrow> apart S \<Longrightarrow> set xs \<subseteq> S \<Longrightarrow> sorted_wrt disjoint_ranges xs"
proof (induction xs)
  case Nil
  show ?case by simp
next
  case (Cons x xs)
  then have "\<forall>y\<in>set xs. disjoint_ranges x y" unfolding apart_def by (metis distinct.simps(2) list.set_intros(1) set_subset_Cons subsetD)
  with Cons show ?case by simp
qed

lemma greedy_disjoint:
  assumes iter: "\<And>xs. distinct (set_iter xs) \<and> set (set_iter xs) = set xs"
    and good: "\<forall>c\<in>set cs. apart (set (line_ranges (occurrences_c c)))"
  shows "sorted_wrt disjoint_ranges (all_matches (greedy_select set_iter occd cs)) \<and>
         (\<forall>m\<in>set (all_matches (greedy_select set_iter occd cs)). lines_of m \<inter> occd = {})"
  using good
proof (induction cs arbitrary: occd)
  case Nil
  show ?case by (simp add: all_matches_def)
next
  case (Cons c cs)
  define occs where "occs = sort_key fst (set_iter (line_ranges (occurrences_c c)))"
  define non where "non = filter (\<lambda>(s, e). \<not> range_overlaps_with_occupied occd s e) occs"
  have IH: "\<And>occd. sorted_wrt disjoint_ranges (all_matches (greedy_select set_iter occd cs)) \<and>
         (\<forall>m\<in>set (all_matches (greedy_select set_iter occd cs)). lines_of m \<inter> occd = {})"
    using Cons by simp
  show ?case
  proof (cases "length non < 2")
    case True
    then have "greedy_select set_iter occd (c # cs) = greedy_select set_iter occd cs"
      by (simp add: non_def occs_def Let_def)
    with IH show ?thesis by simp
  next
    case False
    then obtain p ps where non_eq: "non = p # ps" by (cases non) auto
    define g where "g = \<lparr>hash_s = hash_c c, primary_s = p, matches_s = non,
              count_s = length non, length_s = length_c c\<rparr>"
    from False have eq: "greedy_select set_iter occd (c # cs) =
        g # greedy_select set_iter (occupy occd non) cs"
      using non_eq by (simp add: non_def [symmetric] occs_def [symmetric] Let_def g_def)
    have dist: "distinct non" using iter by (simp add: non_def occs_def)
    have sub: "set non \<subseteq> set (line_ranges (occurrences_c c))"
      using iter by (auto simp: non_def occs_def)
    have ap: "apart (set (line_ranges (occurrences_c c)))" using Cons.prems by simp
    have sw_non: "sorted_wrt disjoint_ranges non"
      by (rule distinct_apart_sorted_wrt [OF dist ap sub])
    have non_free: "\<forall>m\<in>set non. lines_of m \<inter> occd = {}"
      by (auto simp: non_def overlaps_iff)
    let ?rest = "all_matches (greedy_select set_iter (occupy occd non) cs)"
    from IH [of "occupy occd non"] have sw_rest: "sorted_wrt disjoint_ranges ?rest"
      and rest_free: "\<forall>m\<in>set ?rest. lines_of m \<inter> occupy occd non = {}" by auto
    have cross: "\<forall>a\<in>set non. \<forall>b\<in>set ?rest. disjoint_ranges a b"
      using rest_free unfolding occupy_eq disjoint_ranges_def by blast
    have rest_free': "\<forall>m\<in>set ?rest. lines_of m \<inter> occd = {}"
      using rest_free unfolding occupy_eq by blast
    have am: "all_matches (greedy_select set_iter occd (c # cs)) = non @ ?rest"
      unfolding eq by (simp add: all_matches_def g_def)
    show ?thesis
      unfolding am using sw_non sw_rest cross non_free rest_free'
      by (auto simp: sorted_wrt_append)
  qed
qed

lemma make_candidate_Some:
  assumes "make_candidate (h, occ) = Some c"
  shows "hash_c c = h" and "occurrences_c c = occ_unique occ" and "3 \<le> length (occ_unique occ)"
    and "count_c c = length (occ_unique occ)"
    and "\<not> is_trivial_dump (snd (snd (hd (occ_unique occ)))) (line_ranges (occ_unique occ))"
  using assms
  by (auto simp: make_candidate_def Let_def split: if_splits list.splits)

lemma is_trivial_dump_ranges:
  "\<not> is_trivial_dump d rs \<Longrightarrow> \<not> is_trivial_by_line_ranges rs"
  by (auto simp: is_trivial_dump_def split: if_splits)

lemma candidates_apart:
  assumes "c \<in> set (sort_candidates (build_candidates sq))"
  shows "apart (set (line_ranges (occurrences_c c)))"
proof -
  from assms obtain h occ where "make_candidate (h, occ) = Some c"
    by (auto simp: sort_candidates_def build_candidates_def List.map_filter_def)
  from make_candidate_Some [OF this]
  have "\<not> is_trivial_by_line_ranges (line_ranges (occurrences_c c))"
    and "2 \<le> length (line_ranges (occurrences_c c))"
    by (auto dest: is_trivial_dump_ranges simp: line_ranges_def)
  then show ?thesis by (rule not_trivial_apart)
qed


text \<open>
  C1. Whatever the hash-to-occurrences map is (in particular the one \<open>collect_sequences\<close>
  builds for a syntax tree), the accepted occurrences of all selected groups, taken over all
  \<open>matches\<close> lists, have pairwise disjoint inclusive line ranges: no two of them, in one
  group or in two, share a source line. The only assumption is that iterating over a Python
  set yields each of its elements once.
\<close>

theorem C1_non_overlap:
  assumes "\<And>xs. distinct (set_iter xs) \<and> set (set_iter xs) = set xs"
  shows "\<forall>i j. i < j \<and> j < length (all_matches (select_groups set_iter sq)) \<longrightarrow>
           lines_of (all_matches (select_groups set_iter sq) ! i) \<inter>
           lines_of (all_matches (select_groups set_iter sq) ! j) = {}"
proof -
  have "sorted_wrt disjoint_ranges (all_matches (select_groups set_iter sq))"
    unfolding select_groups_def
    using greedy_disjoint [OF assms, of "sort_candidates (build_candidates sq)" "{}"]
      candidates_apart by blast
  then show ?thesis
    by (auto simp: sorted_wrt_iff_nth_less disjoint_ranges_def)
qed


subsection \<open>Groups of fewer than three occurrences\<close>

lemma map_fst_dict_set:
  "map fst (dict_set d k v) = (if k \<in> fst ` set d then map fst d else map fst d @ [k])"
  by (induction d k v rule: dict_set.induct) auto

lemma seen_keys:
  "distinct (map fst d) \<Longrightarrow>
   distinct (map fst (foldl (\<lambda>seen (s, e, dd). dict_set seen (s, e) dd) d occ)) \<and>
   set (map fst (foldl (\<lambda>seen (s, e, dd). dict_set seen (s, e) dd) d occ))
     = fst ` set d \<union> set (line_ranges occ)"
proof (induction occ arbitrary: d)
  case Nil
  then show ?case by (simp add: line_ranges_def)
next
  case (Cons x occ)
  obtain s e dd where x: "x = (s, e, dd)" by (cases x)
  have d': "distinct (map fst (dict_set d (s, e) dd))"
    using Cons.prems by (simp add: map_fst_dict_set)
  have s': "fst ` set (dict_set d (s, e) dd) = insert (s, e) (fst ` set d)"
    using arg_cong [OF map_fst_dict_set [of d "(s, e)" dd], of set] by auto
  from Cons.IH [OF d'] show ?case
    unfolding x s' by (auto simp: line_ranges_def)
qed

lemma line_ranges_occ_unique:
  "line_ranges (occ_unique occ) =
     map fst (foldl (\<lambda>seen (s, e, dd). dict_set seen (s, e) dd) [] occ)"
  by (simp add: line_ranges_def occ_unique_def case_prod_beta comp_def)

lemma occ_unique_distinct: "distinct (line_ranges (occ_unique occ))"
  using seen_keys [of "[]" occ] by (simp add: line_ranges_occ_unique)

lemma occ_unique_set: "set (line_ranges (occ_unique occ)) = set (line_ranges occ)"
  using seen_keys [of "[]" occ] by (simp add: line_ranges_occ_unique)

lemma occ_unique_length: "length (occ_unique occ) = card (set (line_ranges occ))"
proof -
  have "length (occ_unique occ) = length (line_ranges (occ_unique occ))"
    by (simp add: line_ranges_def)
  also have "\<dots> = card (set (line_ranges (occ_unique occ)))"
    using occ_unique_distinct by (simp add: distinct_card)
  finally show ?thesis by (simp add: occ_unique_set)
qed

lemma make_candidate_None_few:
  "length (occ_unique occ) < 3 \<Longrightarrow> make_candidate (h, occ) = None"
  by (simp add: make_candidate_def)

lemma make_candidate_ex:
  assumes "3 \<le> length (occ_unique occ)"
    and "\<not> is_trivial_dump (snd (snd (hd (occ_unique occ)))) (line_ranges (occ_unique occ))"
  shows "\<exists>c. make_candidate (h, occ) = Some c"
  using assms by (cases "occ_unique occ") (auto simp: make_candidate_def Let_def)

lemma greedy_hash:
  "g \<in> set (greedy_select set_iter occd cs) \<Longrightarrow> \<exists>c\<in>set cs. hash_c c = hash_s g"
proof (induction cs arbitrary: occd)
  case Nil
  then show ?case by simp
next
  case (Cons c cs)
  then show ?case
    by (auto simp: Let_def split: if_splits list.splits)
qed

lemma greedy_append:
  "greedy_select set_iter occd (xs @ ys) =
     greedy_select set_iter occd xs @
     greedy_select set_iter
       (occd \<union> (\<Union>m\<in>set (all_matches (greedy_select set_iter occd xs)). lines_of m)) ys"
proof (induction xs arbitrary: occd)
  case Nil
  show ?case by (simp add: all_matches_def)
next
  case (Cons c xs)
  show ?case
    by (auto simp: Let_def Cons all_matches_def occupy_eq Un_assoc split: list.splits)
qed

lemma candidate_in_sq:
  assumes "c \<in> set (sort_candidates (build_candidates sq))"
  shows "\<exists>occ. (hash_c c, occ) \<in> set sq \<and> make_candidate (hash_c c, occ) = Some c"
proof -
  from assms obtain h occ where "(h, occ) \<in> set sq" "make_candidate (h, occ) = Some c"
    by (auto simp: sort_candidates_def build_candidates_def List.map_filter_def)
  with make_candidate_Some(1) [OF this(2)] show ?thesis by auto
qed

lemma key_unique:
  "distinct (map fst sq) \<Longrightarrow> (h, a) \<in> set sq \<Longrightarrow> (h, b) \<in> set sq \<Longrightarrow> a = b"
  by (meson eq_key_imp_eq_value)


text \<open>
  The selection over a given dictionary. Let \<open>sq\<close> be a dictionary (its keys are distinct)
  and \<open>(h, occ)\<close> one of its groups.
  If the group has fewer than three distinct \<open>(start, end)\<close> occurrences (exactly two, for
  instance), no selected group carries its hash. If it has at least three, its representative
  dump with its line ranges passes the triviality filter, and the groups ranked above it have
  claimed none of its lines, then it is selected, with every one of its distinct occurrences
  as a match.
\<close>

theorem select_groups_minimum_repetition:
  assumes iter: "\<And>xs. distinct (set_iter xs) \<and> set (set_iter xs) = set xs"
    and dict: "distinct (map fst sq)"
    and grp: "(h, occ) \<in> set sq"
  shows "(card (set (line_ranges occ)) < 3 \<longrightarrow> h \<notin> hash_s ` set (select_groups set_iter sq)) \<and>
         (3 \<le> card (set (line_ranges occ)) \<and>
          \<not> is_trivial_dump (snd (snd (hd (occ_unique occ)))) (line_ranges (occ_unique occ)) \<and>
          (\<forall>r \<in> set (line_ranges occ). lines_of r \<inter> claimed_before set_iter sq h = {})
          \<longrightarrow> (\<exists>g \<in> set (select_groups set_iter sq).
                 hash_s g = h \<and> set (matches_s g) = set (line_ranges occ) \<and>
                 count_s g = card (set (line_ranges occ))))"
proof (intro conjI impI)
  assume few: "card (set (line_ranges occ)) < 3"
  show "h \<notin> hash_s ` set (select_groups set_iter sq)"
  proof
    assume "h \<in> hash_s ` set (select_groups set_iter sq)"
    then obtain g where "g \<in> set (select_groups set_iter sq)" "hash_s g = h" by auto
    then obtain c where c: "c \<in> set (sort_candidates (build_candidates sq))" "hash_c c = h"
      unfolding select_groups_def using greedy_hash by blast
    from candidate_in_sq [OF c(1)] obtain occ' where
      "(h, occ') \<in> set sq" "make_candidate (h, occ') = Some c" using c(2) by auto
    with key_unique [OF dict grp] have "make_candidate (h, occ) = Some c" by auto
    with make_candidate_None_few [of occ h] few show False
      by (simp add: occ_unique_length)
  qed
next
  assume asm: "3 \<le> card (set (line_ranges occ)) \<and>
          \<not> is_trivial_dump (snd (snd (hd (occ_unique occ)))) (line_ranges (occ_unique occ)) \<and>
          (\<forall>r \<in> set (line_ranges occ). lines_of r \<inter> claimed_before set_iter sq h = {})"
  let ?cs = "sort_candidates (build_candidates sq)"
  let ?P = "\<lambda>c. hash_c c \<noteq> h"
  from asm make_candidate_ex [of occ h] obtain c where mc: "make_candidate (h, occ) = Some c"
    by (auto simp: occ_unique_length)
  note cf = make_candidate_Some [OF mc]
  have "c \<in> set ?cs"
    using grp mc by (force simp: sort_candidates_def build_candidates_def List.map_filter_def)
  with cf(1) have "dropWhile ?P ?cs \<noteq> []" by (auto simp: dropWhile_eq_Nil_conv)
  then obtain c' post where dw: "dropWhile ?P ?cs = c' # post" by (cases "dropWhile ?P ?cs") auto
  then have hc': "hash_c c' = h" using hd_dropWhile [of ?P ?cs] by force
  have "c' \<in> set ?cs" using dw set_dropWhileD [of c' ?P ?cs] by simp
  from candidate_in_sq [OF this] obtain occ' where
    "(h, occ') \<in> set sq" "make_candidate (h, occ') = Some c'" using hc' by auto
  with key_unique [OF dict grp] mc have cc: "c' = c" by auto
  have split: "?cs = takeWhile ?P ?cs @ c # post"
    using takeWhile_dropWhile_id [of ?P ?cs] dw cc by simp
  define occd where "occd = claimed_before set_iter sq h"
  define occs where "occs = sort_key fst (set_iter (line_ranges (occurrences_c c)))"
  have sel: "select_groups set_iter sq =
      greedy_select set_iter {} (takeWhile ?P ?cs) @ greedy_select set_iter occd (c # post)"
    unfolding select_groups_def occd_def claimed_before_def
    by (subst split, subst greedy_append) simp
  have set_occs: "set occs = set (line_ranges occ)"
    using iter by (simp add: occs_def cf(2) occ_unique_set)
  have len_occs: "length occs = card (set (line_ranges occ))"
  proof -
    have "distinct occs" using iter by (simp add: occs_def)
    then show ?thesis using set_occs by (metis distinct_card)
  qed
  have non: "filter (\<lambda>(s, e). \<not> range_overlaps_with_occupied occd s e) occs = occs"
    using asm set_occs by (auto simp: filter_id_conv overlaps_iff occd_def)
  from asm len_occs obtain p ps where occs_eq: "occs = p # ps" by (cases occs) auto
  have "greedy_select set_iter occd (c # post) =
      \<lparr>hash_s = hash_c c, primary_s = p, matches_s = occs,
              count_s = length occs, length_s = length_c c\<rparr> #
       greedy_select set_iter (occupy occd occs) post"
    using asm len_occs non occs_eq
    by (simp add: occs_def [symmetric] Let_def)
  with sel cf(1) set_occs len_occs
  show "\<exists>g \<in> set (select_groups set_iter sq).
                 hash_s g = h \<and> set (matches_s g) = set (line_ranges occ) \<and>
                 count_s g = card (set (line_ranges occ))"
    by auto
qed

subsection \<open>The examples, evaluated\<close>

lemma dump_ABCD_ok:
  "\<not> length dump_ABCD < 50" "\<not> str_in ''Return('' dump_ABCD" "\<not> is_argparse_like dump_ABCD"
  by code_simp+

lemma dump_ABC_ok:
  "\<not> length dump_ABC < 50" "\<not> str_in ''Return('' dump_ABC" "\<not> is_argparse_like dump_ABC"
  by code_simp+

lemma dump_BCD_ok:
  "\<not> length dump_BCD < 50" "\<not> str_in ''Return('' dump_BCD" "\<not> is_argparse_like dump_BCD"
  by code_simp+

lemma dump_DE_ok:
  "\<not> length dump_DE < 50" "\<not> str_in ''Return('' dump_DE" "\<not> is_argparse_like dump_DE"
  by code_simp+

lemmas example_dumps_ok = dump_ABCD_ok dump_ABC_ok dump_BCD_ok dump_DE_ok

lemmas eval_candidates = build_candidates_def List.map_filter_def make_candidate_def
  occ_unique_def line_ranges_def is_trivial_dump_def is_trivial_by_line_ranges_def
  example_dumps_ok

lemmas eval_select = select_groups_def sort_candidates_def less_eq_prod_def line_ranges_def
  range_overlaps_with_occupied_def occupy_def

lemma candidates_five_functions:
  "build_candidates seqs_five_functions =
   [\<lparr>hash_c = ''hash_DE'', occurrences_c = [(2, 4, dump_DE), (10, 12, dump_DE), (29, 31, dump_DE)],
     count_c = 3, length_c = 30, sample_dump_c = dump_DE\<rparr>,
    \<lparr>hash_c = ''hash_ABCD'',
     occurrences_c = [(7, 10, dump_ABCD), (15, 18, dump_ABCD), (22, 25, dump_ABCD)],
     count_c = 3, length_c = 19, sample_dump_c = dump_ABCD\<rparr>,
    \<lparr>hash_c = ''hash_ABC'',
     occurrences_c = [(7, 9, dump_ABC), (15, 17, dump_ABC), (22, 24, dump_ABC)],
     count_c = 3, length_c = 18, sample_dump_c = dump_ABC\<rparr>,
    \<lparr>hash_c = ''hash_BCD'',
     occurrences_c = [(8, 10, dump_BCD), (16, 18, dump_BCD), (23, 25, dump_BCD)],
     count_c = 3, length_c = 18, sample_dump_c = dump_BCD\<rparr>]"
  by (simp add: seqs_five_functions_def eval_candidates)

lemma select_five_functions:
  "select_groups remdups seqs_five_functions =
   [\<lparr>hash_s = ''hash_DE'', primary_s = (2, 4), matches_s = [(2, 4), (10, 12), (29, 31)],
     count_s = 3, length_s = 30\<rparr>,
    \<lparr>hash_s = ''hash_ABCD'', primary_s = (15, 18), matches_s = [(15, 18), (22, 25)],
     count_s = 2, length_s = 19\<rparr>]"
  by (auto simp add: candidates_five_functions eval_select)

lemma candidates_three_and_two:
  "build_candidates seqs_three_and_two =
   [\<lparr>hash_c = ''hash_DE'', occurrences_c = [(2, 4, dump_DE), (12, 14, dump_DE), (22, 24, dump_DE)],
     count_c = 3, length_c = 23, sample_dump_c = dump_DE\<rparr>]"
  by (simp add: seqs_three_and_two_def eval_candidates)

lemma candidates_one_group:
  "build_candidates seqs_one_group =
   [\<lparr>hash_c = ''hash_ABC'', occurrences_c = [(1, 3, dump_ABC), (11, 13, dump_ABC), (21, 23, dump_ABC)],
     count_c = 3, length_c = 23, sample_dump_c = dump_ABC\<rparr>]"
  by (simp add: seqs_one_group_def eval_candidates)

lemma select_one_group:
  "select_groups remdups seqs_one_group =
   [\<lparr>hash_s = ''hash_ABC'', primary_s = (1, 3), matches_s = [(1, 3), (11, 13), (21, 23)],
     count_s = 3, length_s = 23\<rparr>]"
  by (auto simp add: candidates_one_group eval_select)

text \<open>C1 at the group of \<open>seqs_one_group\<close>, with \<open>remdups\<close> as the iteration order.\<close>

theorem C1_non_overlap_witness:
  "all_matches (select_groups remdups seqs_one_group) = [(1, 3), (11, 13), (21, 23)] \<and>
   lines_of (all_matches (select_groups remdups seqs_one_group) ! 0) \<inter>
   lines_of (all_matches (select_groups remdups seqs_one_group) ! 1) = {} \<and>
   lines_of (all_matches (select_groups remdups seqs_one_group) ! 0) \<inter>
   lines_of (all_matches (select_groups remdups seqs_one_group) ! 2) = {} \<and>
   lines_of (all_matches (select_groups remdups seqs_one_group) ! 1) \<inter>
   lines_of (all_matches (select_groups remdups seqs_one_group) ! 2) = {}"
proof -
  have iter: "\<And>xs :: line_range list. distinct (remdups xs) \<and> set (remdups xs) = set xs"
    by simp
  have len: "length (all_matches (select_groups remdups seqs_one_group)) = 3"
    by (simp add: select_one_group all_matches_def)
  have ms: "all_matches (select_groups remdups seqs_one_group) = [(1, 3), (11, 13), (21, 23)]"
    by (simp add: select_one_group all_matches_def)
  from C1_non_overlap [of remdups seqs_one_group, OF iter] len
  have "\<And>i j. i < j \<Longrightarrow> j < 3 \<Longrightarrow>
      lines_of (all_matches (select_groups remdups seqs_one_group) ! i) \<inter>
      lines_of (all_matches (select_groups remdups seqs_one_group) ! j) = {}"
    by simp
  from this [of 0 1] this [of 0 2] this [of 1 2] ms show ?thesis by simp
qed

text \<open>At \<open>seqs_three_and_two\<close> the group found three times is selected, the group found
  twice is not.\<close>

lemma select_groups_minimum_repetition_example:
  "(\<exists>g \<in> set (select_groups remdups seqs_three_and_two).
       hash_s g = ''hash_DE'' \<and> set (matches_s g) = {(2, 4), (12, 14), (22, 24)} \<and> count_s g = 3) \<and>
   ''hash_ABC'' \<notin> hash_s ` set (select_groups remdups seqs_three_and_two)"
proof -
  have iter: "\<And>xs :: line_range list. distinct (remdups xs) \<and> set (remdups xs) = set xs" by simp
  have dict: "distinct (map fst seqs_three_and_two)" by (simp add: seqs_three_and_two_def)
  have in1: "(''hash_DE'', [(2, 4, dump_DE), (12, 14, dump_DE), (22, 24, dump_DE)])
      \<in> set seqs_three_and_two" by (simp add: seqs_three_and_two_def)
  have in2: "(''hash_ABC'', [(31, 33, dump_ABC), (41, 43, dump_ABC)]) \<in> set seqs_three_and_two"
    by (simp add: seqs_three_and_two_def)
  have none: "claimed_before remdups seqs_three_and_two ''hash_DE'' = {}"
    by (simp add: claimed_before_def candidates_three_and_two sort_candidates_def all_matches_def)
  have triv: "\<not> is_trivial_dump
      (snd (snd (hd (occ_unique [(2, 4, dump_DE), (12, 14, dump_DE), (22, 24, dump_DE)]))))
      (line_ranges (occ_unique [(2, 4, dump_DE), (12, 14, dump_DE), (22, 24, dump_DE)]))"
    by (simp add: eval_candidates)
  have card3: "card {(2 :: int, 4 :: int), (12, 14), (22, 24)} = 3" by simp
  have card2: "card {(31 :: int, 33 :: int), (41, 43)} = 2" by simp
  from select_groups_minimum_repetition [OF iter dict in1] none triv card3
  have "\<exists>g \<in> set (select_groups remdups seqs_three_and_two).
       hash_s g = ''hash_DE'' \<and> set (matches_s g) = {(2, 4), (12, 14), (22, 24)} \<and> count_s g = 3"
    by (simp add: line_ranges_def)
  moreover from select_groups_minimum_repetition [OF iter dict in2] card2
  have "''hash_ABC'' \<notin> hash_s ` set (select_groups remdups seqs_three_and_two)"
    by (simp add: line_ranges_def)
  ultimately show ?thesis by simp
qed

text \<open>
  C8. Both \<open>hash_ABCD\<close> (four statements, three occurrences of four lines) and \<open>hash_DE\<close>
  (two statements, three occurrences of three lines) have three occurrences, and the
  occurrences \<open>(7, 10)\<close> and \<open>(10, 12)\<close> share line 10. The key \<open>length\<close> is the extent from
  the smallest start to the largest end of the group, 19 for \<open>hash_ABCD\<close> and 30 for
  \<open>hash_DE\<close>, so the two-statement group is processed first and claims line 10; the
  four-statement group keeps two of its three occurrences.
\<close>

theorem C8_extent_ranking:
  "map (\<lambda>c. (hash_c c, count_c c, length_c c))
       (sort_candidates (build_candidates seqs_five_functions)) =
     [(''hash_DE'', 3, 30), (''hash_ABCD'', 3, 19), (''hash_ABC'', 3, 18), (''hash_BCD'', 3, 18)] \<and>
   map (\<lambda>g. (hash_s g, matches_s g)) (select_groups remdups seqs_five_functions) =
     [(''hash_DE'', [(2, 4), (10, 12), (29, 31)]), (''hash_ABCD'', [(15, 18), (22, 25)])]"
  by (simp add: select_five_functions candidates_five_functions sort_candidates_def
      less_eq_prod_def)

subsection \<open>Clones in bodies of different lengths\<close>

text \<open>Three functions with the same three statements: \<open>check\<close> reports the block, with its
  three occurrences.\<close>

lemma check_three_clones:
  "check plain_digest ast_dump remdups three_clones ''m.py'' =
     Inr [\<lparr>file_f = ''m.py'', line_f = 2, col_f = 1, code_f = ''Z202'',
           msg_f = ''repeated block detected (3 occurrences). Consider extracting a function for the block at lines [(2, 4), (7, 9), (12, 14)]''\<rparr>]"
  by code_simp

text \<open>
  C2 at the same module with two more statements at the end of the third function. The block
  \<open>a = 1; b = a; c = b\<close> still occurs three times, on lines 2 to 4, 7 to 9 and 12 to 14,
  and \<open>check\<close> reports nothing. The windows of a body share their statements, and
  \<open>canonical_block_dump\<close> rewrites them in place: when the window of lines 12 to 14 is
  reached, the window of lines 13 to 16 has renumbered \<open>b\<close> to \<open>_N0\<close>, the placeholder that
  \<open>a\<close> has on line 12, so the third occurrence gets another dump and another hash than the
  first two.
\<close>

theorem C2_clone_in_longer_function:
  "check plain_digest ast_dump remdups clone_in_longer_function ''m.py'' = Inr []"
  by code_simp

subsection \<open>Decimal numerals and \<open>repr\<close> are injective\<close>

lemma digit_char_inj: "\<forall>d\<in>{0..<10}. \<forall>e\<in>{0..<10}. digit_char d = digit_char e \<longrightarrow> d = e"
  by code_simp

lemma digit_char_digit: "\<forall>d\<in>{0..<10}. is_digit (digit_char d)"
  by code_simp

lemma hex_char_inj: "\<forall>d\<in>{0..<16}. \<forall>e\<in>{0..<16}. hex_char d = hex_char e \<longrightarrow> d = e"
  by code_simp

lemma str_nat_nonempty: "str_nat n \<noteq> []"
  by (subst str_nat.simps) simp

lemma str_nat_digits: "\<forall>ch\<in>set (str_nat n). is_digit ch"
proof (induction n rule: str_nat.induct)
  case (1 n)
  show ?case
  proof (cases "n < 10")
    case True
    then show ?thesis using digit_char_digit by (subst str_nat.simps) simp
  next
    case False
    have "n mod 10 \<in> {0..<10}" by simp
    with digit_char_digit have "is_digit (digit_char (n mod 10))" by blast
    with False 1 show ?thesis by (subst str_nat.simps) auto
  qed
qed

lemma str_nat_inj: "str_nat m = str_nat n \<Longrightarrow> m = n"
proof (induction m arbitrary: n rule: str_nat.induct)
  case (1 m)
  have dm: "m mod 10 \<in> {0..<10}" and dn: "n mod 10 \<in> {0..<10}" by simp_all
  show ?case
  proof (cases "m < 10")
    case True
    note m = this
    show ?thesis
    proof (cases "n < 10")
      case True
      with m 1(2) have "digit_char m = digit_char n"
        by (simp add: str_nat.simps [of m] str_nat.simps [of n])
      with m True digit_char_inj show ?thesis by auto
    next
      case False
      with m 1(2) have "str_nat (n div 10) = []"
        by (simp add: str_nat.simps [of m] str_nat.simps [of n])
      with str_nat_nonempty show ?thesis by blast
    qed
  next
    case False
    note m = this
    show ?thesis
    proof (cases "n < 10")
      case True
      with m 1(2) have "str_nat (m div 10) = []"
        by (simp add: str_nat.simps [of m] str_nat.simps [of n])
      with str_nat_nonempty show ?thesis by blast
    next
      case False
      with m 1(2) have eq: "str_nat (m div 10) = str_nat (n div 10)"
        and "digit_char (m mod 10) = digit_char (n mod 10)"
        by (simp_all add: str_nat.simps [of m] str_nat.simps [of n])
      with dm dn digit_char_inj have "m mod 10 = n mod 10" by blast
      moreover from 1(1) [OF m eq] have "m div 10 = n div 10" .
      ultimately show ?thesis by (metis div_mult_mod_eq)
    qed
  qed
qed

lemma str_int_inj: "str_int i = str_int j \<Longrightarrow> i = j"
proof -
  assume eq: "str_int i = str_int j"
  have nd: "\<not> is_digit (CHR ''-'')" by (simp add: is_digit_def)
  have hd_digit: "\<And>n. is_digit (hd (str_nat n))"
    using str_nat_digits str_nat_nonempty by (metis hd_in_set)
  show ?thesis
  proof (cases "i < 0")
    case True
    note i = this
    show ?thesis
    proof (cases "j < 0")
      case True
      with i eq have "str_nat (nat (- i)) = str_nat (nat (- j))" by (simp add: str_int_def)
      then have "nat (- i) = nat (- j)" by (rule str_nat_inj)
      with i True show ?thesis by simp
    next
      case False
      with i eq have "hd (str_nat (nat j)) = CHR ''-''" by (simp add: str_int_def) (metis list.sel(1))
      with hd_digit [of "nat j"] nd show ?thesis by simp
    qed
  next
    case False
    note i = this
    show ?thesis
    proof (cases "j < 0")
      case True
      with i eq have "hd (str_nat (nat i)) = CHR ''-''" by (simp add: str_int_def)
      with hd_digit [of "nat i"] nd show ?thesis by simp
    next
      case False
      with i eq have "str_nat (nat i) = str_nat (nat j)" by (simp add: str_int_def)
      then have "nat i = nat j" by (rule str_nat_inj)
      with i False show ?thesis by simp
    qed
  qed
qed

lemma hex_val_hex_char: "\<forall>d\<in>{0..<16}. hex_val (hex_char d) = d"
  by code_simp

lemma hex_roundtrip:
  "char_of (16 * hex_val (hex_char (of_char ch div 16)) + hex_val (hex_char (of_char ch mod 16)))
     = ch"
proof -
  let ?n = "of_char ch :: nat"
  have "?n < 256" by simp
  then have "?n div 16 < 16" by (simp add: less_mult_imp_div_less)
  then have "?n div 16 \<in> {0..<16}" and "?n mod 16 \<in> {0..<16}" by auto
  with hex_val_hex_char have "hex_val (hex_char (?n div 16)) = ?n div 16"
    and "hex_val (hex_char (?n mod 16)) = ?n mod 16" by blast+
  then show ?thesis by simp
qed

lemma unescape_escape:
  assumes "quote = CHR 0x27 \<or> quote = CHR 0x22"
  shows "unescape (escape_char quote ch @ rest) = Some (ch, rest)"
  using assms hex_roundtrip [of ch]
  by (auto simp: escape_char_def)

lemma escape_char_nonempty: "escape_char quote ch \<noteq> []"
  by (simp add: escape_char_def)

lemma escaped_inj:
  assumes q: "quote = CHR 0x27 \<or> quote = CHR 0x22"
  shows "concat (map (escape_char quote) s) = concat (map (escape_char quote) t) \<Longrightarrow> s = t"
proof (induction s arbitrary: t)
  case Nil
  then show ?case using escape_char_nonempty by (cases t) auto
next
  case (Cons a s)
  show ?case
  proof (cases t)
    case Nil
    with Cons.prems show ?thesis using escape_char_nonempty by auto
  next
    case (Cons b t')
    with Cons.prems have "escape_char quote a @ concat (map (escape_char quote) s) =
        escape_char quote b @ concat (map (escape_char quote) t')" by simp
    then have "unescape (escape_char quote a @ concat (map (escape_char quote) s)) =
        unescape (escape_char quote b @ concat (map (escape_char quote) t'))" by simp
    then have "a = b" and "concat (map (escape_char quote) s) = concat (map (escape_char quote) t')"
      unfolding unescape_escape [OF q] by simp_all
    with Cons.IH Cons show ?thesis by simp
  qed
qed

lemma repr_str_inj: "repr_str s = repr_str t \<Longrightarrow> s = t"
proof -
  assume eq: "repr_str s = repr_str t"
  define qs where "qs = (if CHR 0x27 \<in> set s \<and> CHR 0x22 \<notin> set s then CHR 0x22 else CHR 0x27)"
  define qt where "qt = (if CHR 0x27 \<in> set t \<and> CHR 0x22 \<notin> set t then CHR 0x22 else CHR 0x27)"
  have s: "repr_str s = qs # concat (map (escape_char qs) s) @ [qs]"
    and t: "repr_str t = qt # concat (map (escape_char qt) t) @ [qt]"
    by (simp_all add: repr_str_def qs_def qt_def Let_def)
  from eq s t have "qs = qt" by simp
  with eq s t have "concat (map (escape_char qs) s) = concat (map (escape_char qs) t)" by simp
  moreover have "qs = CHR 0x27 \<or> qs = CHR 0x22" by (simp add: qs_def)
  ultimately show ?thesis by (rule escaped_inj [rotated])
qed

lemma repr_str_hd: "hd (repr_str s) = CHR 0x27 \<or> hd (repr_str s) = CHR 0x22"
  by (simp add: repr_str_def Let_def)

lemma str_int_hd: "is_digit (hd (str_int i)) \<or> hd (str_int i) = CHR ''-''"
  using str_nat_digits [of "nat i"] str_nat_nonempty [of "nat i"]
  by (auto simp: str_int_def)

lemma head_class_py_repr:
  "head_class (hd (py_repr v)) =
     (case v of CNone \<Rightarrow> 0 | CBool b \<Rightarrow> 1 | CInt i \<Rightarrow> 2 | CStr s \<Rightarrow> 3 | CEllipsis \<Rightarrow> 4)"
proof (cases v)
  case (CInt i)
  with str_int_hd [of i] show ?thesis by (auto simp: head_class_def is_digit_def)
next
  case (CStr s)
  with repr_str_hd [of s] show ?thesis by (auto simp: head_class_def is_digit_def)
qed (simp_all add: head_class_def is_digit_def)

lemma py_repr_inj: "py_repr v = py_repr w \<Longrightarrow> v = w"
proof -
  assume eq: "py_repr v = py_repr w"
  then have "head_class (hd (py_repr v)) = head_class (hd (py_repr w))" by simp
  then have same: "(case v of CNone \<Rightarrow> 0 | CBool b \<Rightarrow> 1 | CInt i \<Rightarrow> 2 | CStr s \<Rightarrow> 3 | CEllipsis \<Rightarrow> 4)
      = (case w of CNone \<Rightarrow> 0 | CBool b \<Rightarrow> 1 | CInt i \<Rightarrow> 2 | CStr s \<Rightarrow> 3 | CEllipsis \<Rightarrow> (4 :: nat))"
    by (simp only: head_class_py_repr)
  show ?thesis
  proof (cases v)
    case CNone
    with same show ?thesis by (cases w) simp_all
  next
    case (CBool b)
    with same eq show ?thesis by (cases w) (auto split: if_splits)
  next
    case (CInt i)
    with same eq show ?thesis by (cases w) (auto dest: str_int_inj)
  next
    case (CStr s)
    with same eq show ?thesis by (cases w) (auto dest: repr_str_inj)
  next
    case CEllipsis
    with same show ?thesis by (cases w) simp_all
  qed
qed

subsection \<open>A pass as a list of requests\<close>

lemma foldl_serve_append [simp]: "foldl serve c (xs @ ys) = foldl serve (foldl serve c xs) ys"
  by simp

lemma visit_e_state:
  "snd (visit_e c e) = foldl serve c (requests_e e)"
  "snd (visit_es c es) = foldl serve c (requests_es es)"
  "snd (visit_eo c eo) = foldl serve c (requests_eo eo)"
  "snd (visit_eos c eos) = foldl serve c (requests_eos eos)"
  "snd (visit_efields c fs) = foldl serve c (requests_efields fs)"
  "snd (visit_efield c f) = foldl serve c (requests_efield f)"
  by (induction c e and c es and c eo and c eos and c fs and c f
      rule: visit_e_visit_es_visit_eo_visit_eos_visit_efields_visit_efield.induct)
     (auto simp: Let_def split: prod.splits)

lemma visit_s_state:
  "snd (visit_s c s) = foldl serve c (requests_s s)"
  "snd (visit_ss c ss) = foldl serve c (requests_ss ss)"
  "snd (visit_sfields c fs) = foldl serve c (requests_sfields fs)"
  "snd (visit_sfield c f) = foldl serve c (requests_sfield f)"
  by (induction s and ss and fs and f arbitrary: c and c and c and c
      rule: requests_s_requests_ss_requests_sfields_requests_sfield.induct)
     (simp_all add: case_prod_beta Let_def visit_e_state)

subsection \<open>The maps only grow\<close>

definition extends :: "canon \<Rightarrow> canon \<Rightarrow> bool" where
  "extends c c' = (name_map c \<subseteq>\<^sub>m name_map c' \<and> const_map c \<subseteq>\<^sub>m const_map c')"

lemma extends_refl [simp]: "extends c c"
  by (simp add: extends_def)

lemma extends_trans: "extends a b \<Longrightarrow> extends b c \<Longrightarrow> extends a c"
  by (auto simp: extends_def intro: map_le_trans)

lemma extends_serve: "extends c (serve c r)"
  by (cases r)
     (auto simp: extends_def map_name_def map_attr_def map_const_def Let_def map_le_def
        split: option.splits)

lemma extends_foldl: "extends c (foldl serve c rs)"
proof (induction rs arbitrary: c)
  case Nil
  show ?case by simp
next
  case (Cons r rs)
  show ?case using extends_trans [OF extends_serve Cons] by simp
qed

lemma extends_foldl_trans: "extends (foldl serve c rs) c' \<Longrightarrow> extends c c'"
  using extends_foldl extends_trans by blast

lemma lookup_name_after:
  "extends (snd (map_name c n)) c' \<Longrightarrow> lookup (name_map c') n = fst (map_name c n)"
  by (auto simp: extends_def map_name_def lookup_def map_le_def dom_def split: option.splits)

lemma lookup_attr_after:
  "extends (snd (map_attr c a)) c' \<Longrightarrow> lookup (name_map c') (''attr::'' @ a) = fst (map_attr c a)"
  by (auto simp: extends_def map_attr_def lookup_def map_le_def dom_def Let_def
      split: option.splits)

lemma lookup_const_after:
  "extends (snd (map_const c v)) c' \<Longrightarrow> lookup (const_map c') (py_repr v) = fst (map_const c v)"
  by (auto simp: extends_def map_const_def lookup_def map_le_def dom_def Let_def
      split: option.splits)

lemma extends_visit_e:
  "extends (snd (visit_e c e)) c' \<Longrightarrow> extends c c'"
  "extends (snd (visit_es c es)) c' \<Longrightarrow> extends c c'"
  "extends (snd (visit_eo c eo)) c' \<Longrightarrow> extends c c'"
  "extends (snd (visit_eos c eos)) c' \<Longrightarrow> extends c c'"
  "extends (snd (visit_efields c fs)) c' \<Longrightarrow> extends c c'"
  "extends (snd (visit_efield c f)) c' \<Longrightarrow> extends c c'"
  by (auto simp: visit_e_state dest: extends_foldl_trans)

lemma extends_visit_s:
  "extends (snd (visit_s c s)) c' \<Longrightarrow> extends c c'"
  "extends (snd (visit_ss c ss)) c' \<Longrightarrow> extends c c'"
  "extends (snd (visit_sfields c sfs)) c' \<Longrightarrow> extends c c'"
  "extends (snd (visit_sfield c sf)) c' \<Longrightarrow> extends c c'"
  by (auto simp: visit_s_state dest: extends_foldl_trans)

text \<open>The tree that a visit returns is the substitution by any state that extends the state
  after the visit.\<close>

lemma visit_e_subst:
  "extends (snd (visit_e c e)) c' \<Longrightarrow> fst (visit_e c e) = subst_e c' e"
  "extends (snd (visit_es c es)) c' \<Longrightarrow> fst (visit_es c es) = subst_es c' es"
  "extends (snd (visit_eo c eo)) c' \<Longrightarrow> fst (visit_eo c eo) = subst_eo c' eo"
  "extends (snd (visit_eos c eos)) c' \<Longrightarrow> fst (visit_eos c eos) = subst_eos c' eos"
  "extends (snd (visit_efields c fs)) c' \<Longrightarrow> fst (visit_efields c fs) = subst_efields c' fs"
  "extends (snd (visit_efield c f)) c' \<Longrightarrow> fst (visit_efield c f) = subst_efield c' f"
proof (induction e and es and eo and eos and fs and f
    arbitrary: c and c and c and c and c and c
    rule: requests_e_requests_es_requests_eo_requests_eos_requests_efields_requests_efield.induct)
  case (3 v a ctx)
  let ?c1 = "snd (visit_e c v)"
  let ?c2 = "snd (visit_e ?c1 ctx)"
  from 3(3) have e3: "extends (snd (map_attr ?c2 a)) c'"
    by (simp add: case_prod_beta Let_def)
  have e2: "extends ?c2 c'"
    using e3 extends_serve [of ?c2 "ReqAttr a"] extends_trans by fastforce
  have e1: "extends ?c1 c'" using e2 by (rule extends_visit_e)
  show ?case
    using 3(1) [OF e1] 3(2) [OF e2] lookup_attr_after [OF e3]
    by (simp add: case_prod_beta Let_def)
next
  case (7 e es)
  let ?c1 = "snd (visit_e c e)"
  from 7(3) have e2: "extends (snd (visit_es ?c1 es)) c'" by (simp add: case_prod_beta Let_def)
  then have e1: "extends ?c1 c'" by (rule extends_visit_e)
  show ?case using 7(1) [OF e1] 7(2) [OF e2] by (simp add: case_prod_beta Let_def)
next
  case (11 e es)
  let ?c1 = "snd (visit_eo c e)"
  from 11(3) have e2: "extends (snd (visit_eos ?c1 es)) c'" by (simp add: case_prod_beta Let_def)
  then have e1: "extends ?c1 c'" by (rule extends_visit_e)
  show ?case using 11(1) [OF e1] 11(2) [OF e2] by (simp add: case_prod_beta Let_def)
next
  case (13 n f fs)
  let ?c1 = "snd (visit_efield c f)"
  from 13(3) have e2: "extends (snd (visit_efields ?c1 fs)) c'"
    by (simp add: case_prod_beta Let_def)
  then have e1: "extends ?c1 c'" by (rule extends_visit_e)
  show ?case using 13(1) [OF e1] 13(2) [OF e2] by (simp add: case_prod_beta Let_def)
qed (simp_all add: case_prod_beta Let_def lookup_name_after lookup_const_after)

lemmas extends_back = extends_visit_e extends_visit_s

lemma visit_s_subst:
  "extends (snd (visit_s c s)) c' \<Longrightarrow> fst (visit_s c s) = subst_s c' s"
  "extends (snd (visit_ss c ss)) c' \<Longrightarrow> fst (visit_ss c ss) = subst_ss c' ss"
  "extends (snd (visit_sfields c fs)) c' \<Longrightarrow> fst (visit_sfields c fs) = subst_sfields c' fs"
  "extends (snd (visit_sfield c f)) c' \<Longrightarrow> fst (visit_sfield c f) = subst_sfield c' f"
proof (induction s and ss and fs and f arbitrary: c and c and c and c
      rule: requests_s_requests_ss_requests_sfields_requests_sfield.induct)
  case (1 p name args body decorator_list returns tc)
  let ?c1 = "snd (visit_e c args)"
  let ?c2 = "snd (visit_ss ?c1 body)"
  let ?c3 = "snd (visit_es ?c2 decorator_list)"
  from 1(2) have e4: "extends (snd (visit_eo ?c3 returns)) c'"
    by (simp add: case_prod_beta Let_def)
  note e3 = extends_visit_e(3) [OF e4]
  note e2 = extends_visit_e(2) [OF e3]
  note e1 = extends_visit_s(2) [OF e2]
  show ?case using visit_e_subst(1) [OF e1] 1(1) [OF e2] by (simp add: case_prod_beta Let_def)
next
  case (2 p name bases kwds body decorator_list)
  let ?c1 = "snd (visit_es c bases)"
  let ?c2 = "snd (visit_es ?c1 kwds)"
  let ?c3 = "snd (visit_ss ?c2 body)"
  from 2(2) have e4: "extends (snd (visit_es ?c3 decorator_list)) c'"
    by (simp add: case_prod_beta Let_def)
  note e3 = extends_visit_e(2) [OF e4]
  note e2 = extends_visit_s(2) [OF e3]
  show ?case using visit_e_subst(2) [OF e2] 2(1) [OF e3] by (simp add: case_prod_beta Let_def)
next
  case (3 p test body orelse)
  let ?c1 = "snd (visit_e c test)"
  let ?c2 = "snd (visit_ss ?c1 body)"
  from 3(3) have e3: "extends (snd (visit_ss ?c2 orelse)) c'"
    by (simp add: case_prod_beta Let_def)
  note e2 = extends_visit_s(2) [OF e3]
  note e1 = extends_visit_s(2) [OF e2]
  show ?case using visit_e_subst(1) [OF e1] 3(1) [OF e2] 3(2) [OF e3]
    by (simp add: case_prod_beta Let_def)
next
  case (4 p target iter body orelse tc)
  let ?c1 = "snd (visit_e c target)"
  let ?c2 = "snd (visit_e ?c1 iter)"
  let ?c3 = "snd (visit_ss ?c2 body)"
  from 4(3) have e4: "extends (snd (visit_ss ?c3 orelse)) c'"
    by (simp add: case_prod_beta Let_def)
  note e3 = extends_visit_s(2) [OF e4]
  note e2 = extends_visit_s(2) [OF e3]
  note e1 = extends_visit_e(1) [OF e2]
  show ?case
    using visit_e_subst(1) [OF e1] visit_e_subst(1) [OF e2] 4(1) [OF e3] 4(2) [OF e4]
    by (simp add: case_prod_beta Let_def)
next
  case (5 p test body orelse)
  let ?c1 = "snd (visit_e c test)"
  let ?c2 = "snd (visit_ss ?c1 body)"
  from 5(3) have e3: "extends (snd (visit_ss ?c2 orelse)) c'"
    by (simp add: case_prod_beta Let_def)
  note e2 = extends_visit_s(2) [OF e3]
  note e1 = extends_visit_s(2) [OF e2]
  show ?case using visit_e_subst(1) [OF e1] 5(1) [OF e2] 5(2) [OF e3]
    by (simp add: case_prod_beta Let_def)
next
  case (6 p items body tc)
  let ?c1 = "snd (visit_es c items)"
  from 6(2) have e2: "extends (snd (visit_ss ?c1 body)) c'"
    by (simp add: case_prod_beta Let_def)
  note e1 = extends_visit_s(2) [OF e2]
  show ?case using visit_e_subst(2) [OF e1] 6(1) [OF e2] by (simp add: case_prod_beta Let_def)
next
  case (7 p body handlers orelse finalbody)
  let ?c1 = "snd (visit_ss c body)"
  let ?c2 = "snd (visit_ss ?c1 handlers)"
  let ?c3 = "snd (visit_ss ?c2 orelse)"
  from 7(5) have e4: "extends (snd (visit_ss ?c3 finalbody)) c'"
    by (simp add: case_prod_beta Let_def)
  note e3 = extends_visit_s(2) [OF e4]
  note e2 = extends_visit_s(2) [OF e3]
  note e1 = extends_visit_s(2) [OF e2]
  show ?case using 7(1) [OF e1] 7(2) [OF e2] 7(3) [OF e3] 7(4) [OF e4]
    by (simp add: case_prod_beta Let_def)
next
  case (8 p type name body)
  let ?c1 = "snd (visit_eo c type)"
  from 8(2) have e2: "extends (snd (visit_ss ?c1 body)) c'"
    by (simp add: case_prod_beta Let_def)
  note e1 = extends_visit_s(2) [OF e2]
  show ?case using visit_e_subst(3) [OF e1] 8(1) [OF e2] by (simp add: case_prod_beta Let_def)
next
  case (9 body type_ignores)
  let ?c1 = "snd (visit_ss c body)"
  from 9(2) have e2: "extends (snd (visit_es ?c1 type_ignores)) c'"
    by (simp add: case_prod_beta Let_def)
  note e1 = extends_visit_e(2) [OF e2]
  show ?case using visit_e_subst(2) [OF e2] 9(1) [OF e1] by (simp add: case_prod_beta Let_def)
next
  case (10 cls p fs)
  from 10(2) have e1: "extends (snd (visit_sfields c fs)) c'"
    by (simp add: case_prod_beta Let_def)
  show ?case using 10(1) [OF e1] by (simp add: case_prod_beta Let_def)
next
  case 11
  show ?case by simp
next
  case (12 s ss)
  let ?c1 = "snd (visit_s c s)"
  from 12(3) have e2: "extends (snd (visit_ss ?c1 ss)) c'" by (simp add: case_prod_beta Let_def)
  note e1 = extends_visit_s(2) [OF e2]
  show ?case using 12(1) [OF e1] 12(2) [OF e2] by (simp add: case_prod_beta Let_def)
next
  case 13
  show ?case by simp
next
  case (14 n f fs)
  let ?c1 = "snd (visit_sfield c f)"
  from 14(3) have e2: "extends (snd (visit_sfields ?c1 fs)) c'"
    by (simp add: case_prod_beta Let_def)
  note e1 = extends_visit_s(3) [OF e2]
  show ?case using 14(1) [OF e1] 14(2) [OF e2] by (simp add: case_prod_beta Let_def)
next
  case (15 e)
  then show ?case by (simp add: case_prod_beta Let_def visit_e_subst)
next
  case (16 es)
  then show ?case by (simp add: case_prod_beta Let_def visit_e_subst)
next
  case (17 es)
  then show ?case by (simp add: case_prod_beta Let_def visit_e_subst)
next
  case (18 ss)
  then show ?case by (simp add: case_prod_beta Let_def)
qed simp_all

subsection \<open>The numbering of the placeholders\<close>

lemma name_keys_append [simp]: "name_keys (xs @ ys) = name_keys xs @ name_keys ys"
  by (induction xs rule: name_keys.induct) simp_all

lemma const_keys_append [simp]: "const_keys (xs @ ys) = const_keys xs @ const_keys ys"
  by (induction xs rule: const_keys.induct) simp_all

lemma rank_snoc_old: "k \<in> set ks \<Longrightarrow> rank k (ks @ [x]) = rank k ks"
  by (simp add: rank_def takeWhile_append1)

lemma rank_snoc_new: "k \<notin> set ks \<Longrightarrow> rank k (ks @ [k]) = card (set ks)"
  unfolding rank_def by (subst takeWhile_append2) auto

lemma rank_less: "k \<in> set ks \<Longrightarrow> rank k ks < card (set ks)"
proof -
  assume k: "k \<in> set ks"
  have "k \<notin> set (takeWhile (\<lambda>x. x \<noteq> k) ks)" by (auto dest: set_takeWhileD)
  with k have "set (takeWhile (\<lambda>x. x \<noteq> k) ks) \<subset> set ks"
    using set_takeWhileD by fastforce
  then show ?thesis unfolding rank_def by (simp add: psubset_card_mono)
qed

lemma rank_inj: "k \<in> set ks \<Longrightarrow> k' \<in> set ks \<Longrightarrow> rank k ks = rank k' ks \<Longrightarrow> k = k'"
proof (induction ks rule: rev_induct)
  case Nil
  then show ?case by simp
next
  case (snoc x ks)
  show ?case
  proof (cases "k \<in> set ks")
    case True
    note k = this
    show ?thesis
    proof (cases "k' \<in> set ks")
      case True
      with k snoc show ?thesis by (simp add: rank_snoc_old)
    next
      case False
      with snoc.prems have "k' = x" by simp
      with False snoc.prems(3) k rank_less [OF k] show ?thesis
        by (simp add: rank_snoc_old rank_snoc_new)
    qed
  next
    case False
    with snoc.prems have kx: "k = x" by simp
    show ?thesis
    proof (cases "k' \<in> set ks")
      case True
      with False kx snoc.prems(3) rank_less [OF True] show ?thesis
        by (simp add: rank_snoc_old rank_snoc_new)
    next
      case False
      with snoc.prems kx show ?thesis by simp
    qed
  qed
qed

lemma startswith_attr [simp]: "startswith (''attr::'' @ a) ''attr::''"
  by (simp add: startswith_def)

lemma startswith_attr_cons [simp]:
  "startswith (CHR ''a'' # CHR ''t'' # CHR ''t'' # CHR ''r'' # CHR '':'' # CHR '':'' # a) ''attr::''"
  by (simp add: startswith_def)

lemma names_state:
  assumes "\<forall>n. ReqName n \<in> set rs \<longrightarrow> \<not> startswith n ''attr::''"
  shows "n_name (foldl serve init_canon rs) = card (set (name_keys rs)) \<and>
         (\<forall>k. name_map (foldl serve init_canon rs) k =
            (if k \<in> set (name_keys rs)
             then Some ((if startswith k ''attr::'' then ''_A'' else ''_N'')
                        @ str_nat (rank k (name_keys rs)))
             else None))"
  using assms
proof (induction rs rule: rev_induct)
  case Nil
  show ?case by (simp add: init_canon_def)
next
  case (snoc r rs)
  let ?c = "foldl serve init_canon rs"
  from snoc have IH: "n_name ?c = card (set (name_keys rs))"
    "\<And>k. name_map ?c k =
            (if k \<in> set (name_keys rs)
             then Some ((if startswith k ''attr::'' then ''_A'' else ''_N'')
                        @ str_nat (rank k (name_keys rs)))
             else None)"
    by auto
  show ?case
  proof (cases r)
    case (ReqName n)
    with snoc.prems have np: "\<not> startswith n ''attr::''" by simp
    show ?thesis
    proof (cases "n \<in> set (name_keys rs)")
      case True
      with IH ReqName show ?thesis
        by (auto simp: map_name_def rank_snoc_old insert_absorb)
    next
      case False
      with IH ReqName np show ?thesis
        by (auto simp: map_name_def rank_snoc_old rank_snoc_new)
    qed
  next
    case (ReqAttr a)
    show ?thesis
    proof (cases "''attr::'' @ a \<in> set (name_keys rs)")
      case True
      with IH ReqAttr show ?thesis
        by (auto simp: map_attr_def Let_def rank_snoc_old insert_absorb)
    next
      case False
      with IH ReqAttr show ?thesis
        by (auto simp: map_attr_def Let_def rank_snoc_old rank_snoc_new)
    qed
  next
    case (ReqConst v)
    with IH show ?thesis by (auto simp: map_const_def Let_def split: option.splits)
  qed
qed

lemma consts_state:
  "n_const (foldl serve init_canon rs) = card (set (const_keys rs)) \<and>
   (\<forall>k. const_map (foldl serve init_canon rs) k =
      (if k \<in> set (const_keys rs) then Some (''_C'' @ str_nat (rank k (const_keys rs)))
       else None))"
proof (induction rs rule: rev_induct)
  case Nil
  show ?case by (simp add: init_canon_def)
next
  case (snoc r rs)
  let ?c = "foldl serve init_canon rs"
  from snoc have IH: "n_const ?c = card (set (const_keys rs))"
    "\<And>k. const_map ?c k =
      (if k \<in> set (const_keys rs) then Some (''_C'' @ str_nat (rank k (const_keys rs)))
       else None)"
    by auto
  show ?case
  proof (cases r)
    case (ReqName n)
    with IH show ?thesis by (auto simp: map_name_def split: option.splits)
  next
    case (ReqAttr a)
    with IH show ?thesis by (auto simp: map_attr_def Let_def split: option.splits)
  next
    case (ReqConst v)
    show ?thesis
    proof (cases "py_repr v \<in> set (const_keys rs)")
      case True
      with IH ReqConst show ?thesis
        by (auto simp: map_const_def Let_def rank_snoc_old insert_absorb)
    next
      case False
      with IH ReqConst show ?thesis
        by (auto simp: map_const_def Let_def rank_snoc_old rank_snoc_new)
    qed
  qed
qed

lemma name_key_mem:
  "ReqName n \<in> set rs \<Longrightarrow> n \<in> set (name_keys rs)"
  "ReqAttr a \<in> set rs \<Longrightarrow> ''attr::'' @ a \<in> set (name_keys rs)"
  by (induction rs rule: name_keys.induct) auto

lemma const_key_mem: "ReqConst v \<in> set rs \<Longrightarrow> py_repr v \<in> set (const_keys rs)"
  by (induction rs rule: const_keys.induct) auto

lemma pass_result:
  assumes "visit_ss init_canon stmts = (stmts', c)"
  shows "c = foldl serve init_canon (requests_ss stmts)" and "stmts' = subst_ss c stmts"
proof -
  from assms have c: "c = snd (visit_ss init_canon stmts)" by simp
  then show "c = foldl serve init_canon (requests_ss stmts)" by (simp add: visit_s_state)
  have "extends (snd (visit_ss init_canon stmts)) c" using c by simp
  from visit_s_subst(2) [OF this] assms show "stmts' = subst_ss c stmts" by simp
qed

text \<open>
  C6 (as the code has it). Take one pass over \<open>stmts\<close> in which no visited name starts
  with \<open>attr::\<close> (no identifier does). The pass returns the statements with every name,
  attribute name and constant replaced by its entry in the final maps, and these entries
  are: for an attribute name, \<open>_A\<close> followed by the number of distinct names and attribute
  names met before its first occurrence; for a name, \<open>_N\<close> followed by that same count;
  for a constant, \<open>_C\<close> followed by the number of distinct constants met before its first
  occurrence. Names and attribute names share one counter, constants have their own.
\<close>

theorem C6_shared_counter:
  assumes "visit_ss init_canon stmts = (stmts', c)"
    and "\<forall>n. ReqName n \<in> set (requests_ss stmts) \<longrightarrow> \<not> startswith n ''attr::''"
  shows "stmts' = subst_ss c stmts \<and>
    (\<forall>a. ReqAttr a \<in> set (requests_ss stmts) \<longrightarrow>
       lookup (name_map c) (''attr::'' @ a) =
         ''_A'' @ str_nat (rank (''attr::'' @ a) (name_keys (requests_ss stmts)))) \<and>
    (\<forall>n. ReqName n \<in> set (requests_ss stmts) \<longrightarrow>
       lookup (name_map c) n = ''_N'' @ str_nat (rank n (name_keys (requests_ss stmts)))) \<and>
    (\<forall>v. ReqConst v \<in> set (requests_ss stmts) \<longrightarrow>
       lookup (const_map c) (py_repr v) =
         ''_C'' @ str_nat (rank (py_repr v) (const_keys (requests_ss stmts))))"
proof -
  note r = pass_result [OF assms(1)]
  from names_state [OF assms(2)] consts_state [of "requests_ss stmts"] r(2)
  show ?thesis
    unfolding r(1) [symmetric]
    using assms(2) by (auto simp: lookup_def dest: name_key_mem const_key_mem)
qed

text \<open>In \<open>x.foo = 1\<close> the name \<open>x\<close> gets \<open>_N0\<close>, the attribute name \<open>foo\<close> gets \<open>_A1\<close>
  and the constant gets \<open>_C0\<close>.\<close>

lemma str_nat_small:
  "str_nat 0 = ''0''" "str_nat (Suc 0) = ''1''" "str_nat 1 = ''1''" "str_nat 2 = ''2''"
  "str_nat 3 = ''3''"
  by code_simp+

lemma requests_x_foo:
  "requests_s stmt_x_foo = [ReqName ''x'', ReqAttr ''foo'', ReqConst (CInt 1)]"
  by (simp add: stmt_x_foo_def assign_def Load_def Store_def)

theorem C6_shared_counter_witness:
  "lookup (name_map (snd (visit_ss init_canon [stmt_x_foo]))) ''x'' = ''_N0'' \<and>
   lookup (name_map (snd (visit_ss init_canon [stmt_x_foo]))) (''attr::'' @ ''foo'') = ''_A1'' \<and>
   lookup (const_map (snd (visit_ss init_canon [stmt_x_foo]))) (py_repr (CInt 1)) = ''_C0''"
proof -
  have "visit_ss init_canon [stmt_x_foo] =
      (fst (visit_ss init_canon [stmt_x_foo]), snd (visit_ss init_canon [stmt_x_foo]))"
    by simp
  moreover have "\<forall>n. ReqName n \<in> set (requests_ss [stmt_x_foo]) \<longrightarrow> \<not> startswith n ''attr::''"
    by (simp add: requests_x_foo startswith_def)
  ultimately have "(\<forall>a. ReqAttr a \<in> set (requests_ss [stmt_x_foo]) \<longrightarrow>
       lookup (name_map (snd (visit_ss init_canon [stmt_x_foo]))) (''attr::'' @ a) =
         ''_A'' @ str_nat (rank (''attr::'' @ a) (name_keys (requests_ss [stmt_x_foo])))) \<and>
    (\<forall>n. ReqName n \<in> set (requests_ss [stmt_x_foo]) \<longrightarrow>
       lookup (name_map (snd (visit_ss init_canon [stmt_x_foo]))) n =
         ''_N'' @ str_nat (rank n (name_keys (requests_ss [stmt_x_foo])))) \<and>
    (\<forall>v. ReqConst v \<in> set (requests_ss [stmt_x_foo]) \<longrightarrow>
       lookup (const_map (snd (visit_ss init_canon [stmt_x_foo]))) (py_repr v) =
         ''_C'' @ str_nat (rank (py_repr v) (const_keys (requests_ss [stmt_x_foo]))))"
    using C6_shared_counter [of "[stmt_x_foo]" "fst (visit_ss init_canon [stmt_x_foo])"
        "snd (visit_ss init_canon [stmt_x_foo])"]
    by blast
  then have "lookup (name_map (snd (visit_ss init_canon [stmt_x_foo]))) (''attr::'' @ ''foo'') =
         ''_A'' @ str_nat (rank (''attr::'' @ ''foo'') (name_keys (requests_ss [stmt_x_foo])))"
    and "lookup (name_map (snd (visit_ss init_canon [stmt_x_foo]))) ''x'' =
         ''_N'' @ str_nat (rank ''x'' (name_keys (requests_ss [stmt_x_foo])))"
    and "lookup (const_map (snd (visit_ss init_canon [stmt_x_foo]))) (py_repr (CInt 1)) =
         ''_C'' @ str_nat (rank (py_repr (CInt 1)) (const_keys (requests_ss [stmt_x_foo])))"
    by (simp_all add: requests_x_foo)
  then show ?thesis
    by (simp add: requests_x_foo rank_def str_nat_small)
qed

text \<open>The first distinct attribute name of a pass over \<open>x.foo\<close> is numbered 1, not 0: the
  name \<open>x\<close> has taken number 0 of the shared counter.\<close>

theorem C6_first_attribute_counterexample:
  "fst (visit_e init_canon (Attribute (Name ''x'' Load) ''foo'' Load)) =
     Attribute (Name ''_N0'' Load) ''_A1'' Load"
  by code_simp

text \<open>
  C7 (as the code has it). Take one pass over \<open>stmts\<close> all of whose constants have a
  \<open>repr\<close>. The pass returns the statements with every constant replaced by its entry in
  the final \<open>const_map\<close>; the entry of a constant is \<open>_C\<close> followed by the number of
  distinct keys met before its first occurrence; two constants that the pass visits have
  the same entry exactly when their \<open>repr\<close> is the same string; and for \<open>None\<close>, booleans,
  integers, strings and \<open>Ellipsis\<close> that is exactly when they are the same value of the
  same type.
\<close>

theorem C7_constant_placeholders:
  assumes "visit_ss init_canon stmts = (stmts', c)"
    and "\<forall>v. ReqConst v \<in> set (requests_ss stmts) \<longrightarrow> repr_defined v"
  shows "stmts' = subst_ss c stmts \<and>
    (\<forall>v. ReqConst v \<in> set (requests_ss stmts) \<longrightarrow>
       lookup (const_map c) (py_repr v) =
         ''_C'' @ str_nat (rank (py_repr v) (const_keys (requests_ss stmts)))) \<and>
    (\<forall>v w. ReqConst v \<in> set (requests_ss stmts) \<and> ReqConst w \<in> set (requests_ss stmts) \<longrightarrow>
       (lookup (const_map c) (py_repr v) = lookup (const_map c) (py_repr w)) =
         (py_repr v = py_repr w) \<and>
       (py_repr v = py_repr w) = (v = w))"
proof -
  note r = pass_result [OF assms(1)]
  let ?ks = "const_keys (requests_ss stmts)"
  have entry: "lookup (const_map c) (py_repr v) = ''_C'' @ str_nat (rank (py_repr v) ?ks)"
    if v: "ReqConst v \<in> set (requests_ss stmts)" for v
    using consts_state [of "requests_ss stmts"] const_key_mem [OF v]
    unfolding r(1) [symmetric] by (simp add: lookup_def)
  have "(lookup (const_map c) (py_repr v) = lookup (const_map c) (py_repr w)) =
         (py_repr v = py_repr w) \<and>
       (py_repr v = py_repr w) = (v = w)"
    if v: "ReqConst v \<in> set (requests_ss stmts)" and w: "ReqConst w \<in> set (requests_ss stmts)"
    for v w
  proof -
    note kv = const_key_mem [OF v] and kw = const_key_mem [OF w]
    have "py_repr v = py_repr w"
      if "lookup (const_map c) (py_repr v) = lookup (const_map c) (py_repr w)"
    proof -
      from that entry [OF v] entry [OF w] have "rank (py_repr v) ?ks = rank (py_repr w) ?ks"
        by (simp add: str_nat_inj)
      from rank_inj [OF kv kw this] show ?thesis .
    qed
    moreover have "(py_repr v = py_repr w) = (v = w)"
      by (auto dest: py_repr_inj)
    ultimately show ?thesis by auto
  qed
  with r(2) entry show ?thesis by blast
qed

text \<open>In \<open>a = 1; b = True; c = 1\<close> the two constants \<open>1\<close> share \<open>_C0\<close> and \<open>True\<close>
  has \<open>_C1\<close>.\<close>

lemma requests_abc:
  "requests_ss stmts_abc =
     [ReqName ''a'', ReqConst (CInt 1), ReqName ''b'', ReqConst (CBool True),
      ReqName ''c'', ReqConst (CInt 1)]"
  by (simp add: stmts_abc_def assign_def Load_def Store_def)

theorem C7_constant_placeholders_witness:
  "lookup (const_map (snd (visit_ss init_canon stmts_abc))) (py_repr (CInt 1)) = ''_C0'' \<and>
   lookup (const_map (snd (visit_ss init_canon stmts_abc))) (py_repr (CBool True)) = ''_C1''"
proof -
  have "visit_ss init_canon stmts_abc =
      (fst (visit_ss init_canon stmts_abc), snd (visit_ss init_canon stmts_abc))"
    by simp
  moreover have "\<forall>v. ReqConst v \<in> set (requests_ss stmts_abc) \<longrightarrow> repr_defined v"
    by (simp add: requests_abc repr_defined_def str_nat_small)
  ultimately have "\<forall>v. ReqConst v \<in> set (requests_ss stmts_abc) \<longrightarrow>
       lookup (const_map (snd (visit_ss init_canon stmts_abc))) (py_repr v) =
         ''_C'' @ str_nat (rank (py_repr v) (const_keys (requests_ss stmts_abc)))"
    using C7_constant_placeholders [of stmts_abc "fst (visit_ss init_canon stmts_abc)"
        "snd (visit_ss init_canon stmts_abc)"]
    by blast
  from this [rule_format, of "CInt 1"] this [rule_format, of "CBool True"]
  show ?thesis
    by (simp add: requests_abc rank_def str_nat_small str_int_def)
qed

text \<open>
  \<open>1 == True\<close> holds, and in \<open>a = 1; b = True; c = 1\<close> the constants \<open>1\<close> and \<open>True\<close>
  have different placeholders: the key is the \<open>repr\<close> of the value, \<open>1\<close> and \<open>True\<close>.
\<close>

theorem C7_equal_values_counterexample:
  "py_eq (CInt 1) (CBool True) \<and>
   lookup (const_map (snd (visit_ss init_canon stmts_abc))) (py_repr (CInt 1)) \<noteq>
   lookup (const_map (snd (visit_ss init_canon stmts_abc))) (py_repr (CBool True))"
  by code_simp

subsection \<open>The windows of a block\<close>

text \<open>
  C9 at a block of three \<open>pass\<close> statements of which the second has no line number. The
  window of length 3 is canonicalized first, and \<open>fix_missing_locations\<close> gives the second
  statement line 1; the window of length 2 that starts at this statement, which had no line
  number in the tree that was passed in, is then appended with start line 1.
\<close>

theorem C9_window_after_location_fix:
  "walk_body plain_digest ast_dump 2 6 [pass_stmt (Some 1), pass_stmt None, pass_stmt (Some 3)] =
     Inr ([pass_stmt (Some 1), pass_stmt (Some 1), pass_stmt (Some 3)],
          [(''Module([Pass(), Pass(), Pass()], [])'', (1, 3, ''Module([Pass(), Pass(), Pass()], [])'')),
           (''Module([Pass(), Pass()], [])'', (1, 1, ''Module([Pass(), Pass()], [])'')),
           (''Module([Pass(), Pass()], [])'', (1, 3, ''Module([Pass(), Pass()], [])''))])"
  by code_simp

subsection \<open>Bodies that are walked\<close>

lemma visit_s_position: "position_of (fst (visit_s c s)) = position_of s"
  by (cases s) (simp_all add: case_prod_beta Let_def)

lemma visit_ss_positions: "map position_of (fst (visit_ss c ss)) = map position_of ss"
  by (induction ss arbitrary: c) (simp_all add: case_prod_beta Let_def visit_s_position)

lemma visit_sfields_children:
  "map position_of (stmts_of_sfields (fst (visit_sfields c fs))) =
   map position_of (stmts_of_sfields fs)"
proof (induction fs arbitrary: c)
  case Nil
  show ?case by simp
next
  case (Cons x fs)
  obtain n f where x: "x = (n, f)" by (cases x)
  show ?case unfolding x
    by (cases f) (simp_all add: case_prod_beta Let_def Cons visit_ss_positions)
qed

lemma visit_s_children:
  "map position_of (children_s (fst (visit_s c s))) = map position_of (children_s s)"
  by (cases s) (simp_all add: case_prod_beta Let_def visit_ss_positions visit_sfields_children)

lemma visit_s_is_handler: "is_handler (fst (visit_s c s)) = is_handler s"
  by (cases s) (simp_all add: case_prod_beta Let_def)

lemma visit_ss_handlers: "list_all is_handler (fst (visit_ss c ss)) = list_all is_handler ss"
  by (induction ss arbitrary: c) (simp_all add: case_prod_beta Let_def visit_s_is_handler)

lemma lined_cong: "position_of a = position_of b \<Longrightarrow> lined a = lined b"
  by (simp add: lined_def lineno_of_def end_lineno_of_def)

lemma lines_cong:
  assumes "position_of a = position_of b"
  shows "start_line a = start_line b \<and> end_line a = end_line b"
proof -
  from assms have "start_line a = start_line b"
    by (simp add: start_line_def lineno_of_def)
  with assms show ?thesis
    by (simp add: end_line_def end_lineno_of_def split: option.splits)
qed

lemma list_all_lined_cong:
  "map position_of a = map position_of b \<Longrightarrow> list_all lined a = list_all lined b"
proof (induction a arbitrary: b)
  case Nil
  then show ?case by simp
next
  case (Cons x a)
  then obtain y b' where "b = y # b'" by (cases b) auto
  with Cons lined_cong [of x y] show ?case by auto
qed

lemma windows_at_cong:
  assumes "map position_of a = map position_of b"
    and "\<forall>i\<in>set offsets. i + len \<le> length a" and "0 < len"
  shows "windows_at len a offsets = windows_at len b offsets"
proof -
  from assms(1) have len: "length a = length b" by (rule map_eq_imp_length_eq)
  have "position_of (a ! j) = position_of (b ! j)" if "j < length a" for j
    using assms(1) that len by (metis nth_map)
  then have "start_line (a ! j) = start_line (b ! j) \<and> end_line (a ! j) = end_line (b ! j)"
    if "j < length a" for j
    using that lines_cong by blast
  with assms(2,3) show ?thesis
    by (auto simp: windows_at_def)
qed

lemma windows_of_lengths_cong:
  assumes "map position_of a = map position_of b" and "\<forall>len\<in>set lens. 0 < len"
  shows "windows_of_lengths a lens = windows_of_lengths b lens"
proof -
  from assms(1) have len: "length a = length b" by (rule map_eq_imp_length_eq)
  have "windows_at l a [0..<length a - l + 1] = windows_at l b [0..<length a - l + 1]"
    if "l \<in> set lens" "\<not> length a < l" for l
    using that assms by (intro windows_at_cong) auto
  then show ?thesis
    unfolding windows_of_lengths_def len [symmetric]
    by (intro arg_cong [where f = concat] map_cong) auto
qed

lemma windows_of_cong:
  "map position_of a = map position_of b \<Longrightarrow> 0 < mn \<Longrightarrow>
     windows_of mn mx a = windows_of mn mx b"
  unfolding windows_of_def by (rule windows_of_lengths_cong) auto

lemma positioned_SNode:
  "positioned_s (SNode cls p fs) =
     ((case p of None \<Rightarrow> True | Some q \<Rightarrow> has_lines q) \<and> positioned_sfields fs)"
  by (cases p) simp_all

lemma visit_ss_lined: "list_all lined (fst (visit_ss c ss)) = list_all lined ss"
  by (rule list_all_lined_cong) (rule visit_ss_positions)

lemma visit_s_positioned:
  "positioned_s (fst (visit_s c s)) = positioned_s s"
  "positioned_ss (fst (visit_ss c ss)) = positioned_ss ss"
  "positioned_sfields (fst (visit_sfields c fs)) = positioned_sfields fs"
  "positioned_sfield (fst (visit_sfield c f)) = positioned_sfield f"
  by (induction s and ss and fs and f arbitrary: c and c and c and c
      rule: requests_s_requests_ss_requests_sfields_requests_sfield.induct)
     (simp_all add: case_prod_beta Let_def visit_ss_lined visit_ss_handlers positioned_SNode
        del: positioned_s.simps(10,11))

lemma visit_ss_windows:
  "0 < mn \<Longrightarrow> windows_of mn mx (fst (visit_ss c ss)) = windows_of mn mx ss"
  by (rule windows_of_cong) (rule visit_ss_positions)

lemma visit_ss_handler_windows:
  "0 < mn \<Longrightarrow>
   map (\<lambda>h. windows_of mn mx (children_s h)) (fst (visit_ss c hs)) =
   map (\<lambda>h. windows_of mn mx (children_s h)) hs"
  by (induction hs arbitrary: c)
     (simp_all add: case_prod_beta Let_def windows_of_cong [OF visit_s_children])

lemma visit_s_expected:
  "0 < mn \<Longrightarrow> expected_s mn mx (fst (visit_s c s)) = expected_s mn mx s"
  "0 < mn \<Longrightarrow> expected_ss mn mx (fst (visit_ss c ss)) = expected_ss mn mx ss"
  "0 < mn \<Longrightarrow> expected_sfields mn mx (fst (visit_sfields c fs)) = expected_sfields mn mx fs"
  "0 < mn \<Longrightarrow> expected_sfield mn mx (fst (visit_sfield c f)) = expected_sfield mn mx f"
  by (induction s and ss and fs and f arbitrary: c and c and c and c
      rule: requests_s_requests_ss_requests_sfields_requests_sfield.induct)
     (simp_all add: case_prod_beta Let_def visit_ss_windows visit_ss_handler_windows)

lemma has_lines_fix: "has_lines p \<Longrightarrow> located (fix_position inh p) = p"
  by (cases p) (auto simp: has_lines_def located_def fix_position_def)

lemma fix_s_positioned:
  "positioned_s s \<Longrightarrow> fix_s inh s = s"
  "positioned_ss ss \<Longrightarrow> fix_ss inh ss = ss"
  "positioned_sfields fs \<Longrightarrow> fix_sfields inh fs = fs"
  "positioned_sfield f \<Longrightarrow> fix_sfield inh f = f"
  by (induction inh s and inh ss and inh fs and inh f
      rule: fix_s_fix_ss_fix_sfields_fix_sfield.induct)
     (simp_all add: has_lines_fix)

lemma canonical_block_dump_positioned:
  "positioned_ss ss \<Longrightarrow>
     snd (canonical_block_dump sha256 dump ss) = fst (visit_ss init_canon ss)"
  by (simp add: canonical_block_dump_def case_prod_beta Let_def fix_missing_locations_def
      fix_s_positioned visit_s_positioned)

lemma same_frame_refl: "positioned_s s \<Longrightarrow> same_frame mn mx s s"
  by (simp add: same_frame_def)

lemma same_frame_trans:
  "same_frame mn mx a b \<Longrightarrow> same_frame mn mx b c \<Longrightarrow> same_frame mn mx a c"
  by (simp add: same_frame_def)

lemma same_frame_visit:
  "positioned_s s \<Longrightarrow> 0 < mn \<Longrightarrow> same_frame mn mx s (fst (visit_s c s))"
  by (simp add: same_frame_def visit_s_positioned visit_s_position visit_s_children
      visit_s_is_handler visit_s_expected)

lemma same_frames_refl: "positioned_ss ss \<Longrightarrow> list_all2 (same_frame mn mx) ss ss"
  by (induction ss) (simp_all add: same_frame_refl)

lemma same_frames_trans:
  "list_all2 (same_frame mn mx) a b \<Longrightarrow> list_all2 (same_frame mn mx) b c \<Longrightarrow>
     list_all2 (same_frame mn mx) a c"
  by (rule list_all2_trans [of "same_frame mn mx" "same_frame mn mx"])
     (auto intro: same_frame_trans)

lemma same_frames_visit:
  "positioned_ss ss \<Longrightarrow> 0 < mn \<Longrightarrow> list_all2 (same_frame mn mx) ss (fst (visit_ss c ss))"
  by (induction ss arbitrary: c) (simp_all add: case_prod_beta Let_def same_frame_visit)

lemma same_frames_facts:
  assumes "list_all2 (same_frame mn mx) ss ss'"
  shows "map position_of ss' = map position_of ss"
    and "positioned_ss ss'" and "positioned_ss ss"
    and "expected_ss mn mx ss' = expected_ss mn mx ss"
    and "list_all is_handler ss' = list_all is_handler ss"
    and "map (\<lambda>h. map position_of (children_s h)) ss' =
         map (\<lambda>h. map position_of (children_s h)) ss"
    and "length ss' = length ss"
  using assms by (induction ss ss' rule: list_all2_induct) (simp_all add: same_frame_def)

lemma same_frames_lined:
  "list_all2 (same_frame mn mx) ss ss' \<Longrightarrow> list_all lined ss' = list_all lined ss"
  by (rule list_all_lined_cong) (rule same_frames_facts(1))

lemma same_frames_windows_at:
  assumes "list_all2 (same_frame mn mx) ss ss'"
    and "\<forall>i\<in>set offsets. i + len \<le> length ss" and "0 < len"
  shows "windows_at len ss' offsets = windows_at len ss offsets"
  using same_frames_facts(1,7) [OF assms(1)] assms(2,3)
  by (intro windows_at_cong) auto

lemma same_frames_windows_of_lengths:
  assumes "list_all2 (same_frame mn mx) ss ss'" and "\<forall>len\<in>set lens. 0 < len"
  shows "windows_of_lengths ss' lens = windows_of_lengths ss lens"
  using same_frames_facts(1) [OF assms(1)] assms(2) by (rule windows_of_lengths_cong)

lemma positioned_ss_append [simp]:
  "positioned_ss (a @ b) = (positioned_ss a \<and> positioned_ss b)"
  by (induction a) simp_all

lemma positioned_ss_take_drop:
  "positioned_ss ss \<Longrightarrow> positioned_ss (take n ss) \<and> positioned_ss (drop n ss)"
  by (metis append_take_drop_id positioned_ss_append)

lemma lined_lines:
  "lined s \<Longrightarrow> lineno_of s = Some (start_line s) \<and> end_lineno_of s = Some (end_line s)"
  by (auto simp: lined_def start_line_def end_line_def)

lemma walk_window_positioned:
  assumes pos: "positioned_ss ss" and lin: "list_all lined ss"
    and len: "0 < len" and i: "i + len \<le> length ss" and mn: "0 < mn"
  shows "\<exists>ss' h d. walk_window sha256 dump len ss i =
           Inr (ss', Some (h, (start_line (ss ! i), end_line (ss ! (i + len - 1)), d))) \<and>
         list_all2 (same_frame mn mx) ss ss'"
proof -
  let ?block = "take len (drop i ss)"
  let ?block' = "fst (visit_ss init_canon ?block)"
  let ?ss' = "take i ss @ ?block' @ drop (i + len) ss"
  have split: "ss = take i ss @ ?block @ drop (i + len) ss"
    by (metis append_take_drop_id drop_drop add.commute)
  from pos have pb: "positioned_ss ?block" and pt: "positioned_ss (take i ss)"
    and pd: "positioned_ss (drop (i + len) ss)"
    by (simp_all add: positioned_ss_take_drop)
  from len i have lb: "length ?block = len" by simp
  with len obtain b0 rest where blk: "?block = b0 # rest" by (cases ?block) auto
  from len i have b0: "b0 = ss ! i"
    using blk by (metis hd_drop_conv_nth hd_take list.sel(1) add_lessD1 less_add_same_cancel1
        less_le_trans)
  from len i lb have lastb: "last ?block = ss ! (i + len - 1)"
    by (simp add: last_conv_nth blk [symmetric] del: blk) 
  note fr = same_frames_visit [OF pb mn, of mx init_canon]
  note ps = same_frames_facts(1) [OF fr]
  from same_frames_facts(7) [OF fr] lb len obtain b0' rest' where blk': "?block' = b0' # rest'"
    by (cases ?block') auto
  from ps blk blk' have p0: "position_of b0' = position_of b0" by simp
  have "position_of (last ?block') = last (map position_of ?block')"
    using blk' by (simp add: last_map del: visit_ss.simps)
  also have "\<dots> = position_of (last ?block)"
    unfolding ps using blk by (simp add: last_map)
  finally have pl: "position_of (last ?block') = position_of (ss ! (i + len - 1))"
    by (simp only: lastb)
  from lin len i have l0: "lined (ss ! i)" and ll: "lined (ss ! (i + len - 1))"
    by (simp_all add: list_all_length)
  from p0 b0 have "lineno_of b0' = lineno_of (ss ! i)" "lineno_of b0 = lineno_of (ss ! i)"
    by (simp_all add: lineno_of_def)
  with lined_lines [OF l0]
  have f0: "lineno_of b0' = Some (start_line (ss ! i))" "lineno_of b0 \<noteq> None"
    by simp_all
  from pl have "lineno_of (last ?block') = lineno_of (ss ! (i + len - 1))"
    "end_lineno_of (last ?block') = end_lineno_of (ss ! (i + len - 1))"
    by (simp_all only: lineno_of_def end_lineno_of_def)
  with lined_lines [OF ll]
  have fl: "lineno_of (last ?block') \<noteq> None"
    "end_lineno_of (last ?block') = Some (end_line (ss ! (i + len - 1)))"
    by simp_all
  obtain h d where cbd: "canonical_block_dump sha256 dump ?block = ((h, d), ?block')"
    using canonical_block_dump_positioned [OF pb, of sha256 dump]
    by (metis prod.collapse)
  from fl(1) obtain ln where ln: "lineno_of (last ?block') = Some ln" by blast
  have "walk_window sha256 dump len ss i =
      Inr (?ss', Some (h, (start_line (ss ! i), end_line (ss ! (i + len - 1)), d)))"
    unfolding walk_window_def blk blk' [unfolded blk] list.case
    using f0(2) cbd [unfolded blk blk' [unfolded blk]] f0(1)
      ln [unfolded blk'] fl(2) [unfolded blk']
    by (simp del: visit_ss.simps last.simps)
  moreover have "list_all2 (same_frame mn mx) ss ?ss'"
    by (subst split) (intro list_all2_appendI same_frames_refl pt pd fr)
  ultimately show ?thesis by blast
qed

lemma entry_range_simp [simp]: "entry_range (h, s, e, d) = (s, e)"
  by (simp add: entry_range_def)

lemma walk_offsets_positioned:
  assumes "positioned_ss ss" and "list_all lined ss" and "0 < len"
    and "\<forall>i\<in>set offsets. i + len \<le> length ss" and "0 < mn"
  shows "\<exists>ss' entries. walk_offsets sha256 dump len ss offsets = Inr (ss', entries) \<and>
           list_all2 (same_frame mn mx) ss ss' \<and>
           map entry_range entries = windows_at len ss offsets"
  using assms
proof (induction offsets arbitrary: ss)
  case Nil
  then show ?case by (simp add: same_frames_refl windows_at_def)
next
  case (Cons i offsets)
  from Cons.prems have i: "i + len \<le> length ss" by simp
  from walk_window_positioned [OF Cons.prems(1,2,3) i Cons.prems(5), of sha256 dump mx]
  obtain ss1 h d where w: "walk_window sha256 dump len ss i =
           Inr (ss1, Some (h, (start_line (ss ! i), end_line (ss ! (i + len - 1)), d)))"
    and fr: "list_all2 (same_frame mn mx) ss ss1"
    by blast
  note f = same_frames_facts [OF fr]
  from Cons.prems(2) have l1: "list_all lined ss1" by (simp add: same_frames_lined [OF fr])
  from Cons.prems(4) f(7) have off: "\<forall>i\<in>set offsets. i + len \<le> length ss1" by simp
  from Cons.IH [OF f(2) l1 Cons.prems(3) off Cons.prems(5)]
  obtain ss2 entries where w2: "walk_offsets sha256 dump len ss1 offsets = Inr (ss2, entries)"
    and fr2: "list_all2 (same_frame mn mx) ss1 ss2"
    and r2: "map entry_range entries = windows_at len ss1 offsets"
    by blast
  from Cons.prems(4) have "\<forall>i\<in>set offsets. i + len \<le> length ss" by simp
  from same_frames_windows_at [OF fr this Cons.prems(3)] r2
  have "map entry_range entries = windows_at len ss offsets" by simp
  with w w2 same_frames_trans [OF fr fr2] show ?case
    by (simp add: windows_at_def)
qed

lemma walk_lengths_positioned:
  assumes "positioned_ss ss" and "list_all lined ss" and "\<forall>len\<in>set lens. 0 < len"
    and "0 < mn"
  shows "\<exists>ss' entries. walk_lengths sha256 dump (length ss) ss lens = Inr (ss', entries) \<and>
           list_all2 (same_frame mn mx) ss ss' \<and>
           map entry_range entries = windows_of_lengths ss lens"
  using assms
proof (induction lens arbitrary: ss)
  case Nil
  then show ?case by (simp add: same_frames_refl windows_of_lengths_def)
next
  case (Cons len lens)
  from Cons.prems(3) have len: "0 < len" and lens: "\<forall>len\<in>set lens. 0 < len" by simp_all
  show ?case
  proof (cases "length ss < len")
    case True
    with Cons.IH [OF Cons.prems(1,2) lens Cons.prems(4)] show ?thesis
      by (simp add: windows_of_lengths_def)
  next
    case False
    then have off: "\<forall>i\<in>set [0..<length ss - len + 1]. i + len \<le> length ss" by auto
    from walk_offsets_positioned [OF Cons.prems(1,2) len off Cons.prems(4), of sha256 dump mx]
    obtain ss1 e1 where w1: "walk_offsets sha256 dump len ss [0..<length ss - len + 1] = Inr (ss1, e1)"
      and fr1: "list_all2 (same_frame mn mx) ss ss1"
      and r1: "map entry_range e1 = windows_at len ss [0..<length ss - len + 1]"
      by blast
    note f = same_frames_facts [OF fr1]
    from Cons.prems(2) have l1: "list_all lined ss1" by (simp add: same_frames_lined [OF fr1])
    from Cons.IH [OF f(2) l1 lens Cons.prems(4)]
    obtain ss2 e2 where w2: "walk_lengths sha256 dump (length ss) ss1 lens = Inr (ss2, e2)"
      and fr2: "list_all2 (same_frame mn mx) ss1 ss2"
      and r2: "map entry_range e2 = windows_of_lengths ss1 lens"
      unfolding f(7) by blast
    from same_frames_windows_of_lengths [OF fr1 lens] r2
    have "map entry_range e2 = windows_of_lengths ss lens" by simp
    with False w1 w2 r1 same_frames_trans [OF fr1 fr2] show ?thesis
      by (simp add: windows_of_lengths_def)
  qed
qed

lemma walk_body_positioned:
  assumes "positioned_ss ss" and "list_all lined ss" and "0 < mn"
  shows "\<exists>ss' entries. walk_body sha256 dump mn mx ss = Inr (ss', entries) \<and>
           list_all2 (same_frame mn mx) ss ss' \<and>
           map entry_range entries = windows_of mn mx ss"
proof -
  from assms(3) have "\<forall>len\<in>set (rev [mn..<mx + 1]). 0 < len" by auto
  from walk_lengths_positioned [OF assms(1,2) this assms(3)] show ?thesis
    by (simp add: walk_body_def windows_of_def)
qed

lemma walk_handlers_positioned:
  assumes "positioned_ss hs" and "list_all is_handler hs" and "0 < mn"
  shows "\<exists>hs' entries. walk_handlers sha256 dump mn mx hs = Inr (hs', entries) \<and>
           list_all2 (same_frame mn mx) hs hs' \<and>
           map entry_range entries = concat (map (\<lambda>h. windows_of mn mx (children_s h)) hs)"
  using assms
proof (induction hs)
  case Nil
  then show ?case by simp
next
  case (Cons h hs)
  from Cons.prems(2) obtain p type name body where h: "h = ExceptHandler p type name body"
    by (cases h) auto
  from Cons.prems(1) h have ph: "has_lines p" "list_all lined body" "positioned_ss body"
    and phs: "positioned_ss hs"
    by simp_all
  from walk_body_positioned [OF ph(3,2) Cons.prems(3), of sha256 dump mx]
  obtain body' e1 where w1: "walk_body sha256 dump mn mx body = Inr (body', e1)"
    and fr1: "list_all2 (same_frame mn mx) body body'"
    and r1: "map entry_range e1 = windows_of mn mx body"
    by blast
  note f = same_frames_facts [OF fr1]
  from Cons.IH [OF phs _ Cons.prems(3)] Cons.prems(2)
  obtain hs' e2 where w2: "walk_handlers sha256 dump mn mx hs = Inr (hs', e2)"
    and fr2: "list_all2 (same_frame mn mx) hs hs'"
    and r2: "map entry_range e2 = concat (map (\<lambda>h. windows_of mn mx (children_s h)) hs)"
    by auto
  have "same_frame mn mx h (ExceptHandler p type name body')"
    using ph f same_frames_lined [OF fr1] by (simp add: same_frame_def h)
  with w1 w2 fr2 r1 r2 show ?case by (simp add: h)
qed

lemma expected_ss_append [simp]:
  "expected_ss mn mx (a @ b) = expected_ss mn mx a @ expected_ss mn mx b"
  by (induction a) simp_all

lemma positioned_stmts_of_sfields:
  "positioned_sfields fs \<Longrightarrow> positioned_ss (stmts_of_sfields fs)"
  by (induction fs rule: stmts_of_sfields.induct) simp_all

lemma expected_stmts_of_sfields:
  "expected_ss mn mx (stmts_of_sfields fs) = expected_sfields mn mx fs"
  by (induction fs rule: stmts_of_sfields.induct) simp_all

lemma walker_expected:
  "positioned_s t \<Longrightarrow> 0 < min_len \<Longrightarrow>
     \<exists>entries. walker sha256 dump min_len max_len t = Inr entries \<and>
       map entry_range entries = expected_s min_len max_len t"
  "positioned_ss ts \<Longrightarrow> 0 < min_len \<Longrightarrow>
     \<exists>entries. walkers sha256 dump min_len max_len ts = Inr entries \<and>
       map entry_range entries = expected_ss min_len max_len ts"
proof (induction sha256 dump min_len max_len t and sha256 dump min_len max_len ts
    rule: walker_walkers.induct)
  case (1 sha256 dump min_len max_len p name args body decorator_list returns tc)
  from "1.prems" have pb: "positioned_ss body" "list_all lined body" by simp_all
  from walk_body_positioned [OF pb "1.prems"(2), of sha256 dump max_len]
  obtain body' e1 where w1: "walk_body sha256 dump min_len max_len body = Inr (body', e1)"
    and fr1: "list_all2 (same_frame min_len max_len) body body'"
    and r1: "map entry_range e1 = windows_of min_len max_len body"
    by blast
  note f = same_frames_facts [OF fr1]
  from "1.IH" [OF w1 refl f(2) "1.prems"(2)]
  obtain e2 where "walkers sha256 dump min_len max_len body' = Inr e2"
    "map entry_range e2 = expected_ss min_len max_len body'"
    by blast
  with w1 r1 f(4) show ?case by simp
next
  case (2 sha256 dump min_len max_len p test body orelse)
  from "2.prems" have pb: "positioned_ss body" "list_all lined body"
    and po: "positioned_ss orelse" "list_all lined orelse"
    by simp_all
  from walk_body_positioned [OF pb "2.prems"(2), of sha256 dump max_len]
  obtain body' e1 where w1: "walk_body sha256 dump min_len max_len body = Inr (body', e1)"
    and fr1: "list_all2 (same_frame min_len max_len) body body'"
    and r1: "map entry_range e1 = windows_of min_len max_len body"
    by blast
  from walk_body_positioned [OF po "2.prems"(2), of sha256 dump max_len]
  obtain orelse' e2 where w2: "walk_body sha256 dump min_len max_len orelse = Inr (orelse', e2)"
    and fr2: "list_all2 (same_frame min_len max_len) orelse orelse'"
    and r2: "map entry_range e2 = windows_of min_len max_len orelse"
    by blast
  note f1 = same_frames_facts [OF fr1] and f2 = same_frames_facts [OF fr2]
  from f1(2) f2(2) have "positioned_ss (body' @ orelse')" by simp
  from "2.IH" [OF w1 refl w2 refl this "2.prems"(2)]
  obtain e3 where "walkers sha256 dump min_len max_len (body' @ orelse') = Inr e3"
    "map entry_range e3 = expected_ss min_len max_len (body' @ orelse')"
    by blast
  with w1 w2 r1 r2 f1(4) f2(4) show ?case by simp
next
  case (3 sha256 dump min_len max_len p target iter body orelse tc)
  from "3.prems" have pb: "positioned_ss body" "list_all lined body"
    and po: "positioned_ss orelse" "list_all lined orelse"
    by simp_all
  from walk_body_positioned [OF pb "3.prems"(2), of sha256 dump max_len]
  obtain body' e1 where w1: "walk_body sha256 dump min_len max_len body = Inr (body', e1)"
    and fr1: "list_all2 (same_frame min_len max_len) body body'"
    and r1: "map entry_range e1 = windows_of min_len max_len body"
    by blast
  from walk_body_positioned [OF po "3.prems"(2), of sha256 dump max_len]
  obtain orelse' e2 where w2: "walk_body sha256 dump min_len max_len orelse = Inr (orelse', e2)"
    and fr2: "list_all2 (same_frame min_len max_len) orelse orelse'"
    and r2: "map entry_range e2 = windows_of min_len max_len orelse"
    by blast
  note f1 = same_frames_facts [OF fr1] and f2 = same_frames_facts [OF fr2]
  from f1(2) f2(2) have "positioned_ss (body' @ orelse')" by simp
  from "3.IH" [OF w1 refl w2 refl this "3.prems"(2)]
  obtain e3 where "walkers sha256 dump min_len max_len (body' @ orelse') = Inr e3"
    "map entry_range e3 = expected_ss min_len max_len (body' @ orelse')"
    by blast
  with w1 w2 r1 r2 f1(4) f2(4) show ?case by simp
next
  case (4 sha256 dump min_len max_len p test body orelse)
  from "4.prems" have pb: "positioned_ss body" "list_all lined body"
    and po: "positioned_ss orelse" "list_all lined orelse"
    by simp_all
  from walk_body_positioned [OF pb "4.prems"(2), of sha256 dump max_len]
  obtain body' e1 where w1: "walk_body sha256 dump min_len max_len body = Inr (body', e1)"
    and fr1: "list_all2 (same_frame min_len max_len) body body'"
    and r1: "map entry_range e1 = windows_of min_len max_len body"
    by blast
  from walk_body_positioned [OF po "4.prems"(2), of sha256 dump max_len]
  obtain orelse' e2 where w2: "walk_body sha256 dump min_len max_len orelse = Inr (orelse', e2)"
    and fr2: "list_all2 (same_frame min_len max_len) orelse orelse'"
    and r2: "map entry_range e2 = windows_of min_len max_len orelse"
    by blast
  note f1 = same_frames_facts [OF fr1] and f2 = same_frames_facts [OF fr2]
  from f1(2) f2(2) have "positioned_ss (body' @ orelse')" by simp
  from "4.IH" [OF w1 refl w2 refl this "4.prems"(2)]
  obtain e3 where "walkers sha256 dump min_len max_len (body' @ orelse') = Inr e3"
    "map entry_range e3 = expected_ss min_len max_len (body' @ orelse')"
    by blast
  with w1 w2 r1 r2 f1(4) f2(4) show ?case by simp
next
  case (5 sha256 dump min_len max_len p items body tc)
  from "5.prems" have pb: "positioned_ss body" "list_all lined body" by simp_all
  from walk_body_positioned [OF pb "5.prems"(2), of sha256 dump max_len]
  obtain body' e1 where w1: "walk_body sha256 dump min_len max_len body = Inr (body', e1)"
    and fr1: "list_all2 (same_frame min_len max_len) body body'"
    and r1: "map entry_range e1 = windows_of min_len max_len body"
    by blast
  note f = same_frames_facts [OF fr1]
  from "5.IH" [OF w1 refl f(2) "5.prems"(2)]
  obtain e2 where "walkers sha256 dump min_len max_len body' = Inr e2"
    "map entry_range e2 = expected_ss min_len max_len body'"
    by blast
  with w1 r1 f(4) show ?case by simp
next
  case (6 sha256 dump min_len max_len p body handlers orelse finalbody)
  from "6.prems" have pb: "positioned_ss body" "list_all lined body"
    and po: "positioned_ss orelse" "list_all lined orelse"
    and pf: "positioned_ss finalbody" "list_all lined finalbody"
    and ph: "positioned_ss handlers" "list_all is_handler handlers"
    by simp_all
  from walk_body_positioned [OF pb "6.prems"(2), of sha256 dump max_len]
  obtain body' e1 where w1: "walk_body sha256 dump min_len max_len body = Inr (body', e1)"
    and fr1: "list_all2 (same_frame min_len max_len) body body'"
    and r1: "map entry_range e1 = windows_of min_len max_len body"
    by blast
  from walk_body_positioned [OF po "6.prems"(2), of sha256 dump max_len]
  obtain orelse' e2 where w2: "walk_body sha256 dump min_len max_len orelse = Inr (orelse', e2)"
    and fr2: "list_all2 (same_frame min_len max_len) orelse orelse'"
    and r2: "map entry_range e2 = windows_of min_len max_len orelse"
    by blast
  from walk_body_positioned [OF pf "6.prems"(2), of sha256 dump max_len]
  obtain finalbody' e3
    where w3: "walk_body sha256 dump min_len max_len finalbody = Inr (finalbody', e3)"
    and fr3: "list_all2 (same_frame min_len max_len) finalbody finalbody'"
    and r3: "map entry_range e3 = windows_of min_len max_len finalbody"
    by blast
  from walk_handlers_positioned [OF ph "6.prems"(2), of sha256 dump max_len]
  obtain handlers' e4
    where w4: "walk_handlers sha256 dump min_len max_len handlers = Inr (handlers', e4)"
    and fr4: "list_all2 (same_frame min_len max_len) handlers handlers'"
    and r4: "map entry_range e4 =
        concat (map (\<lambda>h. windows_of min_len max_len (children_s h)) handlers)"
    by blast
  note f1 = same_frames_facts [OF fr1] and f2 = same_frames_facts [OF fr2]
    and f3 = same_frames_facts [OF fr3] and f4 = same_frames_facts [OF fr4]
  from f1(2) f2(2) f3(2) f4(2)
  have "positioned_ss (body' @ handlers' @ orelse' @ finalbody')" by simp
  from "6.IH" [OF w1 refl w2 refl w3 refl w4 refl this "6.prems"(2)]
  obtain e5
    where "walkers sha256 dump min_len max_len (body' @ handlers' @ orelse' @ finalbody') = Inr e5"
      "map entry_range e5 =
         expected_ss min_len max_len (body' @ handlers' @ orelse' @ finalbody')"
    by blast
  with w1 w2 w3 w4 r1 r2 r3 r4 f1(4) f2(4) f3(4) f4(4) show ?case by simp
next
  case (7 sha256 dump min_len max_len body type_ignores)
  from "7.prems" have pb: "positioned_ss body" "list_all lined body" by simp_all
  from walk_body_positioned [OF pb "7.prems"(2), of sha256 dump max_len]
  obtain body' e1 where w1: "walk_body sha256 dump min_len max_len body = Inr (body', e1)"
    and fr1: "list_all2 (same_frame min_len max_len) body body'"
    and r1: "map entry_range e1 = windows_of min_len max_len body"
    by blast
  note f = same_frames_facts [OF fr1]
  from "7.IH" [OF w1 refl f(2) "7.prems"(2)]
  obtain e2 where "walkers sha256 dump min_len max_len body' = Inr e2"
    "map entry_range e2 = expected_ss min_len max_len body'"
    by blast
  with w1 r1 f(4) show ?case by simp
next
  case (8 sha256 dump min_len max_len p name bases kwds body decorator_list)
  then show ?case by simp
next
  case (9 sha256 dump min_len max_len p type name body)
  then show ?case by simp
next
  case (10 sha256 dump min_len max_len cls p fs)
  from "10.prems"(1) have "positioned_ss (children_s (SNode cls p fs))"
    by (simp add: positioned_SNode positioned_stmts_of_sfields del: positioned_s.simps(10,11))
  from "10.IH" [OF this "10.prems"(2)] show ?case
    by (simp add: expected_stmts_of_sfields)
next
  case (11 sha256 dump min_len max_len)
  show ?case by simp
next
  case (12 sha256 dump min_len max_len s ss)
  from "12.prems" have ps: "positioned_s s" and pss: "positioned_ss ss" by simp_all
  from "12.IH"(1) [OF ps "12.prems"(2)]
  obtain e1 where w1: "walker sha256 dump min_len max_len s = Inr e1"
    and r1: "map entry_range e1 = expected_s min_len max_len s"
    by blast
  from "12.IH"(2) [OF w1 pss "12.prems"(2)]
  obtain e2 where "walkers sha256 dump min_len max_len ss = Inr e2"
    "map entry_range e2 = expected_ss min_len max_len ss"
    by blast
  with w1 r1 show ?case by simp
qed

text \<open>
  C10. Take a tree with its line numbers and a positive \<open>min_len\<close>. The walk ends without
  error, and the line ranges of the windows that it appends are, in order, the expected
  ones: for every module, function definition, \<open>if\<close>, \<open>for\<close>, \<open>while\<close>, \<open>with\<close> and
  \<open>try\<close> statement of the tree, the windows of its body (and of its \<open>else\<close> block, its
  \<open>finally\<close> block and its handler bodies), wherever the statement stands, also below an
  \<open>async def\<close>. No window is taken from the body of an \<open>async def\<close> itself, nor from
  the body of a node of any other class.
\<close>

theorem C10_walked_bodies:
  assumes "positioned_s tree" and "0 < min_len"
  shows "\<exists>entries. walker sha256 dump min_len max_len tree = Inr entries \<and>
           map entry_range entries = expected_s min_len max_len tree"
  using walker_expected(1) [OF assms] .

text \<open>
  At \<open>async_module\<close>: the window of the two definitions, the windows of the blocks below
  the \<open>async def\<close> and the window of the body of the \<open>def\<close>. The six statements of the body
  of the \<open>async def\<close> (lines 2 to 21) give no window.
\<close>

lemma async_module_positioned: "positioned_s async_module"
  by code_simp

lemma async_module_expected:
  "expected_s 2 6 async_module =
     [(1, 24), (5, 6), (8, 9), (11, 12), (14, 15), (20, 21), (17, 18), (23, 24)]"
  by code_simp

theorem C10_walked_bodies_witness:
  "\<exists>entries. walker plain_digest ast_dump 2 6 async_module = Inr entries \<and>
     map entry_range entries =
       [(1, 24), (5, 6), (8, 9), (11, 12), (14, 15), (20, 21), (17, 18), (23, 24)]"
  using C10_walked_bodies [of async_module 2 plain_digest ast_dump 6]
  by (simp add: async_module_positioned async_module_expected)

subsection \<open>Renaming invariance\<close>

lemma requests_rename_e:
  "requests_e (rename_e f g h e) = map (rename_req f g h) (requests_e e)"
  "requests_es (rename_es f g h es) = map (rename_req f g h) (requests_es es)"
  "requests_eo (rename_eo f g h eo) = map (rename_req f g h) (requests_eo eo)"
  "requests_eos (rename_eos f g h eos) = map (rename_req f g h) (requests_eos eos)"
  "requests_efields (rename_efields f g h fs) = map (rename_req f g h) (requests_efields fs)"
  "requests_efield (rename_efield f g h fl) = map (rename_req f g h) (requests_efield fl)"
  by (induction e and es and eo and eos and fs and fl
      rule: requests_e_requests_es_requests_eo_requests_eos_requests_efields_requests_efield.induct)
     simp_all

lemma requests_rename_s:
  "requests_s (rename_s f g h s) = map (rename_req f g h) (requests_s s)"
  "requests_ss (rename_ss f g h ss) = map (rename_req f g h) (requests_ss ss)"
  "requests_sfields (rename_sfields f g h fs) = map (rename_req f g h) (requests_sfields fs)"
  "requests_sfield (rename_sfield f g h fl) = map (rename_req f g h) (requests_sfield fl)"
  by (induction s and ss and fs and fl
      rule: requests_s_requests_ss_requests_sfields_requests_sfield.induct)
     (simp_all add: requests_rename_e)

lemma subst_rename_e:
  "\<forall>r\<in>set (requests_e e). agrees c1 c2 f g h r \<Longrightarrow>
     subst_e c2 (rename_e f g h e) = subst_e c1 e"
  "\<forall>r\<in>set (requests_es es). agrees c1 c2 f g h r \<Longrightarrow>
     subst_es c2 (rename_es f g h es) = subst_es c1 es"
  "\<forall>r\<in>set (requests_eo eo). agrees c1 c2 f g h r \<Longrightarrow>
     subst_eo c2 (rename_eo f g h eo) = subst_eo c1 eo"
  "\<forall>r\<in>set (requests_eos eos). agrees c1 c2 f g h r \<Longrightarrow>
     subst_eos c2 (rename_eos f g h eos) = subst_eos c1 eos"
  "\<forall>r\<in>set (requests_efields fs). agrees c1 c2 f g h r \<Longrightarrow>
     subst_efields c2 (rename_efields f g h fs) = subst_efields c1 fs"
  "\<forall>r\<in>set (requests_efield fl). agrees c1 c2 f g h r \<Longrightarrow>
     subst_efield c2 (rename_efield f g h fl) = subst_efield c1 fl"
  by (induction e and es and eo and eos and fs and fl
      rule: requests_e_requests_es_requests_eo_requests_eos_requests_efields_requests_efield.induct)
     (simp_all add: ball_Un)

lemma subst_rename_s:
  "\<forall>r\<in>set (requests_s s). agrees c1 c2 f g h r \<Longrightarrow>
     subst_s c2 (rename_s f g h s) = subst_s c1 s"
  "\<forall>r\<in>set (requests_ss ss). agrees c1 c2 f g h r \<Longrightarrow>
     subst_ss c2 (rename_ss f g h ss) = subst_ss c1 ss"
  "\<forall>r\<in>set (requests_sfields fs). agrees c1 c2 f g h r \<Longrightarrow>
     subst_sfields c2 (rename_sfields f g h fs) = subst_sfields c1 fs"
  "\<forall>r\<in>set (requests_sfield fl). agrees c1 c2 f g h r \<Longrightarrow>
     subst_sfield c2 (rename_sfield f g h fl) = subst_sfield c1 fl"
  by (induction s and ss and fs and fl
      rule: requests_s_requests_ss_requests_sfields_requests_sfield.induct)
     (simp_all add: ball_Un subst_rename_e)

lemma rank_map_inj:
  assumes "inj_on \<phi> (insert k (set ks))"
  shows "rank (\<phi> k) (map \<phi> ks) = rank k ks"
proof -
  have eq: "takeWhile ((\<lambda>x. x \<noteq> \<phi> k) \<circ> \<phi>) ks = takeWhile (\<lambda>x. x \<noteq> k) ks"
    using assms by (intro takeWhile_cong) (auto simp: inj_on_def)
  have "set (takeWhile (\<lambda>x. x \<noteq> k) ks) \<subseteq> insert k (set ks)"
    by (auto dest: set_takeWhileD)
  with assms have "inj_on \<phi> (set (takeWhile (\<lambda>x. x \<noteq> k) ks))"
    by (rule inj_on_subset)
  then show ?thesis
    by (simp add: rank_def takeWhile_map eq card_image)
qed

lemma rename_key_attr [simp]: "rename_key f g (''attr::'' @ a) = ''attr::'' @ g a"
  by (simp add: rename_key_def)

lemma rename_key_attr_cons [simp]:
  "rename_key f g (CHR ''a'' # CHR ''t'' # CHR ''t'' # CHR ''r'' # CHR '':'' # CHR '':'' # a) =
     CHR ''a'' # CHR ''t'' # CHR ''t'' # CHR ''r'' # CHR '':'' # CHR '':'' # g a"
  by (simp add: rename_key_def)

lemma rename_key_name: "\<not> startswith n ''attr::'' \<Longrightarrow> rename_key f g n = f n"
  by (simp add: rename_key_def)

lemma name_keys_rename:
  "\<forall>n. ReqName n \<in> set rs \<longrightarrow> \<not> startswith n ''attr::'' \<Longrightarrow>
     name_keys (map (rename_req f g h) rs) = map (rename_key f g) (name_keys rs)"
  by (induction rs rule: name_keys.induct) (simp_all add: rename_key_name)

lemma const_keys_vals: "const_keys rs = map py_repr (const_vals rs)"
  by (induction rs rule: const_vals.induct) simp_all

lemma const_vals_rename: "const_vals (map (rename_req f g h) rs) = map h (const_vals rs)"
  by (induction rs rule: const_vals.induct) simp_all

lemma const_val_mem: "ReqConst v \<in> set rs \<Longrightarrow> v \<in> set (const_vals rs)"
  by (induction rs rule: const_vals.induct) auto

lemma name_key_cases:
  "k \<in> set (name_keys rs) \<Longrightarrow>
     (ReqName k \<in> set rs) \<or> (\<exists>a. k = ''attr::'' @ a \<and> ReqAttr a \<in> set rs)"
  by (induction rs rule: name_keys.induct) auto

lemma rename_key_inj:
  assumes "inj f" "inj g"
    and "\<forall>n. ReqName n \<in> set rs \<longrightarrow> \<not> startswith n ''attr::'' \<and> \<not> startswith (f n) ''attr::''"
  shows "inj_on (rename_key f g) (set (name_keys rs))"
proof (rule inj_onI)
  fix k k'
  assume k: "k \<in> set (name_keys rs)" and k': "k' \<in> set (name_keys rs)"
    and eq: "rename_key f g k = rename_key f g k'"
  have name: "rename_key f g n = f n \<and> \<not> startswith (f n) ''attr::''"
    if "ReqName n \<in> set rs" for n
    using that assms(3) by (simp add: rename_key_name)
  from name_key_cases [OF k] show "k = k'"
  proof
    assume n: "ReqName k \<in> set rs"
    from name_key_cases [OF k'] show ?thesis
    proof
      assume "ReqName k' \<in> set rs"
      with n eq name have "f k = f k'" by simp
      with assms(1) show ?thesis by (simp add: inj_eq)
    next
      assume "\<exists>a. k' = ''attr::'' @ a \<and> ReqAttr a \<in> set rs"
      then obtain a where "k' = ''attr::'' @ a" by blast
      with eq name [OF n] have "startswith (f k) ''attr::''"
        by (simp del: append.simps)
      with name [OF n] show ?thesis by simp
    qed
  next
    assume "\<exists>a. k = ''attr::'' @ a \<and> ReqAttr a \<in> set rs"
    then obtain a where a: "k = ''attr::'' @ a" by blast
    from name_key_cases [OF k'] show ?thesis
    proof
      assume n: "ReqName k' \<in> set rs"
      with eq a name [OF n] have "startswith (f k') ''attr::''"
        by (simp del: append.simps) (metis startswith_attr)
      with name [OF n] show ?thesis by simp
    next
      assume "\<exists>a. k' = ''attr::'' @ a \<and> ReqAttr a \<in> set rs"
      then obtain b where "k' = ''attr::'' @ b" by blast
      with a eq assms(2) show ?thesis by (simp add: inj_eq)
    qed
  qed
qed

lemma renamed_agrees:
  assumes "inj f" "inj g" "inj h"
    and pre: "\<forall>n. ReqName n \<in> set rs \<longrightarrow>
      \<not> startswith n ''attr::'' \<and> \<not> startswith (f n) ''attr::''"
    and r: "r \<in> set rs"
  shows "agrees (foldl serve init_canon rs)
           (foldl serve init_canon (map (rename_req f g h) rs)) f g h r"
proof -
  let ?rs' = "map (rename_req f g h) rs"
  let ?ks = "name_keys rs"
  from pre have pre1: "\<forall>n. ReqName n \<in> set rs \<longrightarrow> \<not> startswith n ''attr::''" by simp
  have pre2: "\<forall>n. ReqName n \<in> set ?rs' \<longrightarrow> \<not> startswith n ''attr::''"
  proof (intro allI impI)
    fix n assume "ReqName n \<in> set ?rs'"
    then obtain q where q: "q \<in> set rs" "rename_req f g h q = ReqName n" by auto
    from q(2) obtain m where "q = ReqName m" "n = f m" by (cases q) auto
    with q pre show "\<not> startswith n ''attr::''" by simp
  qed
  note s1 = names_state [OF pre1] and s2 = names_state [OF pre2]
  note keys' = name_keys_rename [OF pre1, of f g h]
  note inj = rename_key_inj [OF assms(1,2) pre]
  have rk: "rank (rename_key f g k) (name_keys ?rs') = rank k ?ks" if "k \<in> set ?ks" for k
    unfolding keys' using that inj by (intro rank_map_inj) (simp add: insert_absorb)
  have mem: "rename_key f g k \<in> set (name_keys ?rs')" if "k \<in> set ?ks" for k
    unfolding keys' using that by simp
  show ?thesis
  proof (cases r)
    case (ReqName n)
    with r have k: "n \<in> set ?ks" by (simp add: name_key_mem)
    from ReqName r pre have np: "\<not> startswith n ''attr::''" "\<not> startswith (f n) ''attr::''"
      by auto
    then have fk: "rename_key f g n = f n" by (simp add: rename_key_name)
    from s1 k np have "lookup (name_map (foldl serve init_canon rs)) n =
        ''_N'' @ str_nat (rank n ?ks)"
      by (simp add: lookup_def)
    moreover from s2 mem [OF k] rk [OF k] np have
      "lookup (name_map (foldl serve init_canon ?rs')) (f n) = ''_N'' @ str_nat (rank n ?ks)"
      unfolding fk by (simp add: lookup_def)
    ultimately show ?thesis using ReqName by simp
  next
    case (ReqAttr a)
    with r have k: "''attr::'' @ a \<in> set ?ks" by (simp add: name_key_mem del: append.simps)
    from s1 k have "lookup (name_map (foldl serve init_canon rs)) (''attr::'' @ a) =
        ''_A'' @ str_nat (rank (''attr::'' @ a) ?ks)"
      by (simp add: lookup_def del: append.simps)
    moreover from s2 mem [OF k] rk [OF k] have
      "lookup (name_map (foldl serve init_canon ?rs')) (''attr::'' @ g a) =
         ''_A'' @ str_nat (rank (''attr::'' @ a) ?ks)"
      by (simp add: lookup_def del: append.simps)
    ultimately show ?thesis using ReqAttr by (simp del: append.simps)
  next
    case (ReqConst v)
    with r have v: "v \<in> set (const_vals rs)" by (simp add: const_val_mem)
    have "inj py_repr" by (rule injI) (rule py_repr_inj)
    then have i1: "inj_on py_repr (insert v (set (const_vals rs)))"
      by (rule inj_on_subset) simp
    from \<open>inj py_repr\<close> assms(3) have "inj (py_repr \<circ> h)" by (rule inj_compose)
    then have i2: "inj_on (py_repr \<circ> h) (insert v (set (const_vals rs)))"
      by (rule inj_on_subset) simp
    have r1: "rank (py_repr v) (const_keys rs) = rank v (const_vals rs)"
      unfolding const_keys_vals by (rule rank_map_inj [OF i1])
    have r2: "rank (py_repr (h v)) (const_keys ?rs') = rank v (const_vals rs)"
      unfolding const_keys_vals const_vals_rename map_map
      using rank_map_inj [OF i2] by simp
    have m1: "py_repr v \<in> set (const_keys rs)"
      unfolding const_keys_vals using v by simp
    have m2: "py_repr (h v) \<in> set (const_keys ?rs')"
      unfolding const_keys_vals const_vals_rename using v by simp
    from consts_state [of rs] m1 r1 have
      "lookup (const_map (foldl serve init_canon rs)) (py_repr v) =
         ''_C'' @ str_nat (rank v (const_vals rs))"
      by (simp add: lookup_def)
    moreover from consts_state [of ?rs'] m2 r2 have
      "lookup (const_map (foldl serve init_canon ?rs')) (py_repr (h v)) =
         ''_C'' @ str_nat (rank v (const_vals rs))"
      by (simp add: lookup_def)
    ultimately show ?thesis using ReqConst by simp
  qed
qed

lemma visit_module:
  "fst (visit_s init_canon (Module stmts [])) = Module (fst (visit_ss init_canon stmts)) []"
  by (simp add: case_prod_beta Let_def)

text \<open>
  Renaming invariance for the nodes that the canonicalizer rewrites. Rename the identifiers
  of the \<open>Name\<close> and \<open>arg\<close> nodes of \<open>stmts\<close> by an injective \<open>f\<close>, the attribute names of its \<open>Attribute\<close> nodes by an
  injective \<open>g\<close> and the values of its \<open>Constant\<close> nodes by an injective \<open>h\<close>, where no
  visited name starts with \<open>attr::\<close> before or after the renaming (no identifier does).
  Then \<open>canonical_block_dump\<close> returns the same hash and the same dump for the renamed
  statements as for \<open>stmts\<close>. The value of a constant may change its type. Identifiers
  that a node keeps as a plain string are outside this renaming.
\<close>

theorem renaming_invariance:
  assumes "inj f" and "inj g" and "inj h"
    and "\<forall>n. ReqName n \<in> set (requests_ss stmts) \<longrightarrow>
      \<not> startswith n ''attr::'' \<and> \<not> startswith (f n) ''attr::''"
  shows "fst (canonical_block_dump sha256 dump (rename_ss f g h stmts)) =
         fst (canonical_block_dump sha256 dump stmts)"
proof -
  let ?rs = "requests_ss stmts"
  let ?c1 = "foldl serve init_canon ?rs"
  let ?c2 = "foldl serve init_canon (map (rename_req f g h) ?rs)"
  have v1: "visit_ss init_canon stmts =
      (fst (visit_ss init_canon stmts), snd (visit_ss init_canon stmts))"
    by simp
  have v2: "visit_ss init_canon (rename_ss f g h stmts) =
      (fst (visit_ss init_canon (rename_ss f g h stmts)),
       snd (visit_ss init_canon (rename_ss f g h stmts)))"
    by simp
  from pass_result [OF v1]
  have p1: "fst (visit_ss init_canon stmts) = subst_ss ?c1 stmts" by simp
  from pass_result [OF v2]
  have p2: "fst (visit_ss init_canon (rename_ss f g h stmts)) =
      subst_ss ?c2 (rename_ss f g h stmts)"
    by (simp add: requests_rename_s)
  have "\<forall>r\<in>set ?rs. agrees ?c1 ?c2 f g h r"
    using renamed_agrees [OF assms] by blast
  from subst_rename_s(2) [OF this] p1 p2
  have "fst (visit_ss init_canon (rename_ss f g h stmts)) = fst (visit_ss init_canon stmts)"
    by simp
  then have "fst (visit_s init_canon (Module (rename_ss f g h stmts) [])) =
      fst (visit_s init_canon (Module stmts []))"
    by (simp only: visit_module)
  then show ?thesis
    by (simp add: canonical_block_dump_def case_prod_beta Let_def del: visit_s.simps)
qed

lemma bump_inj: "inj bump"
  by (auto simp: inj_def bump_def split: const_value.splits)

text \<open>\<open>x.foo = 1\<close> and \<open>vx.wfoo = 2\<close> have the same hash and dump.\<close>

lemma renaming_invariance_example:
  "fst (canonical_block_dump plain_digest ast_dump
     (rename_ss ((#) CHR ''v'') ((#) CHR ''w'') bump [stmt_x_foo])) =
   fst (canonical_block_dump plain_digest ast_dump [stmt_x_foo])"
proof -
  have "inj ((#) CHR ''v'')" and "inj ((#) CHR ''w'')"
    by (simp_all add: inj_def)
  moreover have "\<forall>n. ReqName n \<in> set (requests_ss [stmt_x_foo]) \<longrightarrow>
      \<not> startswith n ''attr::'' \<and> \<not> startswith (CHR ''v'' # n) ''attr::''"
    by (simp add: requests_x_foo startswith_def)
  ultimately show ?thesis
    using renaming_invariance [of "(#) CHR ''v''" "(#) CHR ''w''" bump "[stmt_x_foo]"
        plain_digest ast_dump] bump_inj
    by blast
qed

text \<open>
  C3 at the blocks \<open>try: pass\<close> / \<open>except E as e: e\<close> and \<open>try: pass\<close> /
  \<open>except E as err: err\<close>, which differ by the name of one variable. The name that an
  \<open>except\<close> clause binds is a plain string of the \<open>ExceptHandler\<close> node, which the
  canonicalizer leaves as it is: the variable is \<open>_N1\<close> where it is read and keeps its
  name in the handler, and the two blocks have different dumps and hashes.
\<close>

theorem C3_handler_name_kept:
  "snd (fst (canonical_block_dump plain_digest ast_dump (try_except ''e''))) =
     ''Module([Try([Pass()], [ExceptHandler(Name('_N0', Load()), 'e', [Expr(Name('_N1', Load()))])], [], [])], [])'' \<and>
   snd (fst (canonical_block_dump plain_digest ast_dump (try_except ''err''))) =
     ''Module([Try([Pass()], [ExceptHandler(Name('_N0', Load()), 'err', [Expr(Name('_N1', Load()))])], [], [])], [])'' \<and>
   fst (canonical_block_dump plain_digest ast_dump (try_except ''e'')) \<noteq>
   fst (canonical_block_dump plain_digest ast_dump (try_except ''err''))"
  by code_simp

subsection \<open>Shape sensitivity\<close>








end
